theory Spec2Isabelle
  imports Complex_Main "HOL-Library.Word" "HOL-Library.Multiset" "HOL-Library.Sublist"
    "HOL-Library.Signed_Division"
begin

section \<open>Go values\<close>

text \<open>
  Go's \<open>int\<close> is a 64-bit two's-complement integer on the platforms the game targets:
  \<open>+\<close>, \<open>-\<close> and \<open>*\<close> wrap around, and comparisons read the value signed (\<open>sint\<close>).
  A \<open>rune\<close> is a 32-bit integer. A \<open>string\<close> is a sequence of bytes.
\<close>

unbundle bit_operations_syntax

type_synonym go_int = "64 word"
type_synonym rune = "32 word"

text \<open>
  A slice is a window on a backing array: \<open>elems\<close> are the cells below its length,
  \<open>spare\<close> the cells of the array between its length and its capacity. Two slices on
  the same array share these cells, so a write through one is seen through the other.
\<close>

record 'a slice =
  elems :: "'a list"
  spare :: "'a list"

definition reslice :: "'a slice \<Rightarrow> nat \<Rightarrow> 'a slice" where
  \<comment> \<open>\<open>s[:n]\<close>, for \<open>n\<close> up to the capacity: the same array, another length.\<close>
  "reslice s n = \<lparr>elems = take n (elems s @ spare s), spare = drop n (elems s @ spare s)\<rparr>"

section \<open>internal/model/score.go\<close>

definition MaxHighScores :: nat where
  "MaxHighScores = 10"

record Score =
  Name :: string
  Score :: go_int

definition zeroScore :: Score where
  "zeroScore = \<lparr>Name = [], Score = 0\<rparr>"

definition Less :: "Score \<Rightarrow> Score \<Rightarrow> bool" where
  \<comment> \<open>\<open>ByScore.Less\<close>, on the two elements compared.\<close>
  "Less a b = (Score a <s Score b)"

definition Swap :: "Score list \<Rightarrow> nat \<Rightarrow> nat \<Rightarrow> Score list" where
  \<comment> \<open>\<open>ByScore.Swap\<close>: \<open>a[i], a[j] = a[j], a[i]\<close>.\<close>
  "Swap a i j = a[i := a ! j, j := a ! i]"

text \<open>
  \<open>sort.Sort\<close> is the function of Go's standard library, in the release named in go.mod
  (1.24): pattern-defeating quicksort over \<open>ByScore\<close>, with insertion sort for at most 12
  elements and heap sort when too many pivots were bad. Indices are natural numbers, as
  they are in every call the library makes; the two scanning indices of a partition, which
  pass each other, are integers.
\<close>

function insertionSort_inner :: "Score list \<Rightarrow> nat \<Rightarrow> nat \<Rightarrow> Score list" where
  "insertionSort_inner xs a j =
     (if j > a \<and> Less (xs ! j) (xs ! (j - 1))
      then insertionSort_inner (Swap xs j (j - 1)) a (j - 1)
      else xs)"
  by pat_completeness auto
termination
  by (relation "measure (\<lambda>(xs, a, j). j)") auto

function insertionSort_outer :: "Score list \<Rightarrow> nat \<Rightarrow> nat \<Rightarrow> nat \<Rightarrow> Score list" where
  "insertionSort_outer xs a b i =
     (if i < b then insertionSort_outer (insertionSort_inner xs a i) a b (i + 1) else xs)"
  by pat_completeness auto
termination
  by (relation "measure (\<lambda>(xs, a, b, i). b - i)") auto

declare insertionSort_inner.simps [simp del]
declare insertionSort_outer.simps [simp del]

definition insertionSort :: "Score list \<Rightarrow> nat \<Rightarrow> nat \<Rightarrow> Score list" where
  "insertionSort xs a b = insertionSort_outer xs a b (a + 1)"


datatype sortedHint = unknownHint | increasingHint | decreasingHint

definition maxInsertion :: nat where
  "maxInsertion = 12"

function siftDown_from :: "Score list \<Rightarrow> nat \<Rightarrow> nat \<Rightarrow> nat \<Rightarrow> Score list" where
  "siftDown_from data hi first rt =
     (let child = 2 * rt + 1
      in if child \<ge> hi then data
         else
           (let child = (if child + 1 < hi \<and> Less (data ! (first + child)) (data ! (first + child + 1))
                         then child + 1 else child)
            in if \<not> Less (data ! (first + rt)) (data ! (first + child)) then data
               else siftDown_from (Swap data (first + rt) (first + child)) hi first child))"
  by pat_completeness auto
termination
  by (relation "measure (\<lambda>(data, hi, first, rt). hi - rt)") (auto simp: Let_def)

declare siftDown_from.simps [simp del]

definition siftDown :: "Score list \<Rightarrow> nat \<Rightarrow> nat \<Rightarrow> nat \<Rightarrow> Score list" where
  "siftDown data lo hi first = siftDown_from data hi first lo"

fun heapSort_build :: "Score list \<Rightarrow> nat \<Rightarrow> nat \<Rightarrow> nat \<Rightarrow> Score list" where
  "heapSort_build data hi first 0 = siftDown data 0 hi first"
| "heapSort_build data hi first (Suc i) = heapSort_build (siftDown data (Suc i) hi first) hi first i"

fun heapSort_pop :: "Score list \<Rightarrow> nat \<Rightarrow> nat \<Rightarrow> nat \<Rightarrow> Score list" where
  "heapSort_pop data first lo 0 = siftDown (Swap data first first) lo 0 first"
| "heapSort_pop data first lo (Suc i) =
     heapSort_pop (siftDown (Swap data first (first + Suc i)) lo (Suc i) first) first lo i"

definition heapSort :: "Score list \<Rightarrow> nat \<Rightarrow> nat \<Rightarrow> Score list" where
  "heapSort data a b =
     (let first = a; lo = 0; hi = b - a;
          data = heapSort_build data hi first ((hi - 1) div 2)
      in heapSort_pop data first lo (hi - 1))"

function scan_up :: "(Score \<Rightarrow> bool) \<Rightarrow> Score list \<Rightarrow> int \<Rightarrow> int \<Rightarrow> int" where
  "scan_up c data i j = (if i \<le> j \<and> c (data ! nat i) then scan_up c data (i + 1) j else i)"
  by pat_completeness auto
termination
  by (relation "measure (\<lambda>(c, data, i, j). nat (j + 1 - i))") auto

function scan_down :: "(Score \<Rightarrow> bool) \<Rightarrow> Score list \<Rightarrow> int \<Rightarrow> int \<Rightarrow> int" where
  "scan_down c data i j = (if i \<le> j \<and> c (data ! nat j) then scan_down c data i (j - 1) else j)"
  by pat_completeness auto
termination
  by (relation "measure (\<lambda>(c, data, i, j). nat (j + 1 - i))") auto

declare scan_up.simps [simp del]
declare scan_down.simps [simp del]

function partition_loop :: "Score list \<Rightarrow> nat \<Rightarrow> int \<Rightarrow> int \<Rightarrow> Score list \<times> int" where
  "partition_loop data a i j =
     (let i1 = scan_up (\<lambda>x. Less x (data ! a)) data i j;
          j1 = scan_down (\<lambda>x. \<not> Less x (data ! a)) data i1 j
      in if i1 > j1 then (data, j1)
         else partition_loop (Swap data (nat i1) (nat j1)) a (i1 + 1) (j1 - 1))"
  by pat_completeness auto
termination
proof (relation "measure (\<lambda>(data, a, i, j). nat (j + 1 - i))")
  show "wf (measure (\<lambda>(data, a, i, j). nat (j + 1 - i)))" by simp
next
  fix data :: "Score list" and a :: nat and i j i1 j1 :: int
  assume i1: "i1 = scan_up (\<lambda>x. Less x (data ! a)) data i j"
    and j1: "j1 = scan_down (\<lambda>x. \<not> Less x (data ! a)) data i1 j"
    and le: "\<not> j1 < i1"
  have up: "i \<le> scan_up c d i j" for c d i j
    by (induction c d i j rule: scan_up.induct) (subst scan_up.simps, auto)
  have down: "scan_down c d i j \<le> j" for c d i j
    by (induction c d i j rule: scan_down.induct) (subst scan_down.simps, auto)
  from up [of i "\<lambda>x. Less x (data ! a)" data j] i1 have "i \<le> i1" by simp
  moreover from down [of "\<lambda>x. \<not> Less x (data ! a)" data i1 j] j1 have "j1 \<le> j" by simp
  ultimately show "((Swap data (nat i1) (nat j1), a, i1 + 1, j1 - 1), data, a, i, j)
      \<in> measure (\<lambda>(data, a, i, j). nat (j + 1 - i))"
    using le by simp
qed

declare partition_loop.simps [simp del]

definition partition_sort :: "Score list \<Rightarrow> nat \<Rightarrow> nat \<Rightarrow> nat \<Rightarrow> Score list \<times> nat \<times> bool" where
  "partition_sort data a b pivot =
     (let data = Swap data a pivot;
          i = int a + 1;
          j = int b - 1;
          i = scan_up (\<lambda>x. Less x (data ! a)) data i j;
          j = scan_down (\<lambda>x. \<not> Less x (data ! a)) data i j
      in if i > j then (Swap data (nat j) a, nat j, True)
         else
           (let data = Swap data (nat i) (nat j);
                (data, j) = partition_loop data a (i + 1) (j - 1)
            in (Swap data (nat j) a, nat j, False)))"

function partitionEqual_loop :: "Score list \<Rightarrow> nat \<Rightarrow> int \<Rightarrow> int \<Rightarrow> Score list \<times> int" where
  "partitionEqual_loop data a i j =
     (let i1 = scan_up (\<lambda>x. \<not> Less (data ! a) x) data i j;
          j1 = scan_down (\<lambda>x. Less (data ! a) x) data i1 j
      in if i1 > j1 then (data, i1)
         else partitionEqual_loop (Swap data (nat i1) (nat j1)) a (i1 + 1) (j1 - 1))"
  by pat_completeness auto
termination
proof (relation "measure (\<lambda>(data, a, i, j). nat (j + 1 - i))")
  show "wf (measure (\<lambda>(data, a, i, j). nat (j + 1 - i)))" by simp
next
  fix data :: "Score list" and a :: nat and i j i1 j1 :: int
  assume i1: "i1 = scan_up (\<lambda>x. \<not> Less (data ! a) x) data i j"
    and j1: "j1 = scan_down (\<lambda>x. Less (data ! a) x) data i1 j"
    and le: "\<not> j1 < i1"
  have up: "i \<le> scan_up c d i j" for c d i j
    by (induction c d i j rule: scan_up.induct) (subst scan_up.simps, auto)
  have down: "scan_down c d i j \<le> j" for c d i j
    by (induction c d i j rule: scan_down.induct) (subst scan_down.simps, auto)
  from up [of i "\<lambda>x. \<not> Less (data ! a) x" data j] i1 have "i \<le> i1" by simp
  moreover from down [of "\<lambda>x. Less (data ! a) x" data i1 j] j1 have "j1 \<le> j" by simp
  ultimately show "((Swap data (nat i1) (nat j1), a, i1 + 1, j1 - 1), data, a, i, j)
      \<in> measure (\<lambda>(data, a, i, j). nat (j + 1 - i))"
    using le by simp
qed

declare partitionEqual_loop.simps [simp del]

definition partitionEqual :: "Score list \<Rightarrow> nat \<Rightarrow> nat \<Rightarrow> nat \<Rightarrow> Score list \<times> nat" where
  "partitionEqual data a b pivot =
     (let data = Swap data a pivot;
          (data, i) = partitionEqual_loop data a (int a + 1) (int b - 1)
      in (data, nat i))"

function partialInsertionSort_scan :: "Score list \<Rightarrow> nat \<Rightarrow> nat \<Rightarrow> nat" where
  "partialInsertionSort_scan data b i =
     (if i < b \<and> \<not> Less (data ! i) (data ! (i - 1))
      then partialInsertionSort_scan data b (i + 1) else i)"
  by pat_completeness auto
termination
  by (relation "measure (\<lambda>(data, b, i). b - i)") auto

declare partialInsertionSort_scan.simps [simp del]

fun shift_left :: "Score list \<Rightarrow> nat \<Rightarrow> Score list" where
  "shift_left data 0 = data"
| "shift_left data (Suc j) =
     (if \<not> Less (data ! Suc j) (data ! j) then data else shift_left (Swap data (Suc j) j) j)"

function shift_right :: "Score list \<Rightarrow> nat \<Rightarrow> nat \<Rightarrow> Score list" where
  "shift_right data b j =
     (if j < b
      then (if \<not> Less (data ! j) (data ! (j - 1)) then data
            else shift_right (Swap data j (j - 1)) b (j + 1))
      else data)"
  by pat_completeness auto
termination
  by (relation "measure (\<lambda>(data, b, j). b - j)") auto

declare shift_right.simps [simp del]

definition maxSteps :: nat where
  "maxSteps = 5"

definition shortestShifting :: nat where
  "shortestShifting = 50"

fun partialInsertionSort_steps ::
    "nat \<Rightarrow> Score list \<Rightarrow> nat \<Rightarrow> nat \<Rightarrow> nat \<Rightarrow> Score list \<times> bool" where
  "partialInsertionSort_steps 0 data a b i = (data, False)"
| "partialInsertionSort_steps (Suc n) data a b i =
     (let i = partialInsertionSort_scan data b i
      in if i = b then (data, True)
         else if b - a < shortestShifting then (data, False)
         else
           (let data = Swap data i (i - 1);
                data = (if i - a \<ge> 2 then shift_left data (i - 1) else data);
                data = (if b - i \<ge> 2 then shift_right data b (i + 1) else data)
            in partialInsertionSort_steps n data a b i))"

definition partialInsertionSort :: "Score list \<Rightarrow> nat \<Rightarrow> nat \<Rightarrow> Score list \<times> bool" where
  "partialInsertionSort data a b = partialInsertionSort_steps maxSteps data a b (a + 1)"

definition xorshift_Next :: "64 word \<Rightarrow> 64 word" where
  "xorshift_Next r =
     (let r = r XOR push_bit 13 r;
          r = r XOR drop_bit 7 r;
          r = r XOR push_bit 17 r
      in r)"

function bits_Len :: "nat \<Rightarrow> nat" where
  "bits_Len x = (if x = 0 then 0 else Suc (bits_Len (x div 2)))"
  by pat_completeness auto
termination
  by (relation "measure (\<lambda>x. x)") auto

declare bits_Len.simps [simp del]

definition nextPowerOfTwo :: "nat \<Rightarrow> nat" where
  "nextPowerOfTwo len = 2 ^ bits_Len len"

fun breakPatterns_swaps ::
    "nat \<Rightarrow> Score list \<Rightarrow> nat \<Rightarrow> nat \<Rightarrow> nat \<Rightarrow> nat \<Rightarrow> 64 word \<Rightarrow> nat \<Rightarrow> Score list" where
  "breakPatterns_swaps 0 data a len modulus idx random i = data"
| "breakPatterns_swaps (Suc n) data a len modulus idx random i =
     (let random = xorshift_Next random;
          other = unat (random AND (word_of_nat modulus - 1));
          other = (if other \<ge> len then other - len else other)
      in breakPatterns_swaps n (Swap data (idx - 1 + i) (a + other)) a len modulus idx random (i + 1))"

definition breakPatterns :: "Score list \<Rightarrow> nat \<Rightarrow> nat \<Rightarrow> Score list" where
  "breakPatterns data a b =
     (let len = b - a
      in if len \<ge> 8
         then (let random = word_of_nat len;
                   modulus = nextPowerOfTwo len;
                   idx = a + (len div 4) * 2 - 1
               in breakPatterns_swaps 3 data a len modulus idx random 0)
         else data)"

definition order2 :: "Score list \<Rightarrow> nat \<Rightarrow> nat \<Rightarrow> nat \<Rightarrow> nat \<times> nat \<times> nat" where
  "order2 data a b swaps =
     (if Less (data ! b) (data ! a) then (b, a, swaps + 1) else (a, b, swaps))"

definition median :: "Score list \<Rightarrow> nat \<Rightarrow> nat \<Rightarrow> nat \<Rightarrow> nat \<Rightarrow> nat \<times> nat" where
  "median data a b c swaps =
     (let (a, b, swaps) = order2 data a b swaps;
          (b, c, swaps) = order2 data b c swaps;
          (a, b, swaps) = order2 data a b swaps
      in (b, swaps))"

definition medianAdjacent :: "Score list \<Rightarrow> nat \<Rightarrow> nat \<Rightarrow> nat \<times> nat" where
  "medianAdjacent data a swaps = median data (a - 1) a (a + 1) swaps"

definition shortestNinther :: nat where
  "shortestNinther = 50"

definition maxSwaps :: nat where
  "maxSwaps = 4 * 3"

definition choosePivot :: "Score list \<Rightarrow> nat \<Rightarrow> nat \<Rightarrow> nat \<times> sortedHint" where
  "choosePivot data a b =
     (let l = b - a;
          swaps = 0;
          i = a + l div 4 * 1;
          j = a + l div 4 * 2;
          k = a + l div 4 * 3;
          (j, swaps) =
            (if l \<ge> 8
             then (let (i, j, k, swaps) =
                         (if l \<ge> shortestNinther
                          then (let (i, swaps) = medianAdjacent data i swaps;
                                    (j, swaps) = medianAdjacent data j swaps;
                                    (k, swaps) = medianAdjacent data k swaps
                                in (i, j, k, swaps))
                          else (i, j, k, swaps))
                   in median data i j k swaps)
             else (j, swaps))
      in if swaps = 0 then (j, increasingHint)
         else if swaps = maxSwaps then (j, decreasingHint)
         else (j, unknownHint))"

function reverseRange_loop :: "Score list \<Rightarrow> nat \<Rightarrow> nat \<Rightarrow> Score list" where
  "reverseRange_loop data i j =
     (if i < j then reverseRange_loop (Swap data i j) (i + 1) (j - 1) else data)"
  by pat_completeness auto
termination
  by (relation "measure (\<lambda>(data, i, j). j - i)") auto

declare reverseRange_loop.simps [simp del]

definition reverseRange :: "Score list \<Rightarrow> nat \<Rightarrow> nat \<Rightarrow> Score list" where
  "reverseRange data a b = reverseRange_loop data a (b - 1)"

function pdqsort :: "Score list \<Rightarrow> nat \<Rightarrow> nat \<Rightarrow> nat \<Rightarrow> bool \<Rightarrow> bool \<Rightarrow> Score list" where
  "pdqsort data a b limit wasBalanced wasPartitioned =
     (let len = b - a
      in if len \<le> maxInsertion then insertionSort data a b
         else if limit = 0 then heapSort data a b
         else
           (let (data, limit) = (if \<not> wasBalanced then (breakPatterns data a b, limit - 1)
                                 else (data, limit));
                (pivot, hint) = choosePivot data a b;
                (data, pivot, hint) =
                   (if hint = decreasingHint
                    then (reverseRange data a b, (b - 1) - (pivot - a), increasingHint)
                    else (data, pivot, hint));
                (data, sorted) =
                   (if wasBalanced \<and> wasPartitioned \<and> hint = increasingHint
                    then partialInsertionSort data a b else (data, False))
            in if sorted then data
               else if a > 0 \<and> \<not> Less (data ! (a - 1)) (data ! pivot)
               then (let (data, mid) = partitionEqual data a b pivot
                     in pdqsort data mid b limit wasBalanced wasPartitioned)
               else
                 (let (data, mid, alreadyPartitioned) = partition_sort data a b pivot;
                      leftLen = mid - a;
                      rightLen = b - mid;
                      balanceThreshold = len div 8
                  in if leftLen < rightLen
                     then pdqsort (pdqsort data a mid limit True True) (mid + 1) b limit
                            (leftLen \<ge> balanceThreshold) alreadyPartitioned
                     else pdqsort (pdqsort data (mid + 1) b limit True True) a mid limit
                            (rightLen \<ge> balanceThreshold) alreadyPartitioned)))"
  by pat_completeness auto

termination
proof -
  have up: "i \<le> scan_up c d i j" for c d i j
    by (induction c d i j rule: scan_up.induct) (subst scan_up.simps, auto)
  have down_le: "scan_down c d i j \<le> j" for c d i j
    by (induction c d i j rule: scan_down.induct) (subst scan_down.simps, auto)
  have down_ge: "min j (i - 1) \<le> scan_down c d i j" for c d i j
    by (induction c d i j rule: scan_down.induct) (subst scan_down.simps, auto)
  have loop: "min j (i - 1) \<le> snd (partition_loop d a i j) \<and> snd (partition_loop d a i j) \<le> j"
    for d a i j
  proof (induction d a i j rule: partition_loop.induct)
    case (1 data a i j)
    let ?i1 = "scan_up (\<lambda>x. Less x (data ! a)) data i j"
    let ?j1 = "scan_down (\<lambda>x. \<not> Less x (data ! a)) data ?i1 j"
    have b1: "i \<le> ?i1" by (rule up)
    have b2: "?j1 \<le> j" by (rule down_le)
    have b3: "min j (?i1 - 1) \<le> ?j1" by (rule down_ge)
    show ?case
    proof (cases "?i1 > ?j1")
      case True
      then show ?thesis
        using b1 b2 b3 by (subst (1 2) partition_loop.simps) (simp add: Let_def)
    next
      case False
      let ?rec = "partition_loop (Swap data (nat ?i1) (nat ?j1)) a (?i1 + 1) (?j1 - 1)"
      from False have eq: "partition_loop data a i j = ?rec"
        by (subst partition_loop.simps) (simp add: Let_def)
      from "1.IH" [OF refl refl False]
      have "min (?j1 - 1) (?i1 + 1 - 1) \<le> snd ?rec" and "snd ?rec \<le> ?j1 - 1"
        by simp_all
      with b1 b2 False show ?thesis
        unfolding eq by (simp add: min_def split: if_splits)
    qed
  qed
  have part: "a \<le> mid \<and> mid < b" if "a < b" and "(d', mid, ap) = partition_sort d a b p"
    for d d' :: "Score list" and a b p mid ap
  proof -
    let ?d = "Swap d a p"
    let ?i = "scan_up (\<lambda>x. Less x (?d ! a)) ?d (int a + 1) (int b - 1)"
    let ?j = "scan_down (\<lambda>x. \<not> Less x (?d ! a)) ?d ?i (int b - 1)"
    have b1: "int a + 1 \<le> ?i" by (rule up)
    have b2: "?j \<le> int b - 1" by (rule down_le)
    have b3: "min (int b - 1) (?i - 1) \<le> ?j" by (rule down_ge)
    show ?thesis
    proof (cases "?i > ?j")
      case True
      with that(2) have "mid = nat ?j" by (simp add: partition_sort_def Let_def)
      with b1 b2 b3 that(1) show ?thesis by auto
    next
      case False
      define i1 where "i1 = ?i"
      define j1 where "j1 = ?j"
      define r where "r = snd (partition_loop (Swap ?d (nat i1) (nat j1)) a (i1 + 1) (j1 - 1))"
      from False that(2) have "mid = nat r"
        by (simp add: partition_sort_def Let_def r_def i1_def j1_def split: prod.splits)
      moreover from loop [of "j1 - 1" "i1 + 1" "Swap ?d (nat i1) (nat j1)" a]
      have "min (j1 - 1) i1 \<le> r" and "r \<le> j1 - 1"
        by (simp_all add: r_def)
      moreover from b1 b2 False have "int a + 1 \<le> i1" and "j1 \<le> int b - 1" and "i1 \<le> j1"
        by (simp_all add: i1_def j1_def)
      ultimately show ?thesis by (auto simp: min_def split: if_splits)
    qed
  qed
  have eqloop: "i \<le> snd (partitionEqual_loop d a i j)" for d a i j
  proof (induction d a i j rule: partitionEqual_loop.induct)
    case (1 data a i j)
    let ?i1 = "scan_up (\<lambda>x. \<not> Less (data ! a) x) data i j"
    let ?j1 = "scan_down (\<lambda>x. Less (data ! a) x) data ?i1 j"
    have b1: "i \<le> ?i1" by (rule up)
    show ?case
    proof (cases "?i1 > ?j1")
      case True
      then show ?thesis
        using b1 by (subst partitionEqual_loop.simps) (simp add: Let_def)
    next
      case False
      from "1.IH" [OF refl refl False] b1 False show ?thesis
        by (subst partitionEqual_loop.simps) (simp add: Let_def)
    qed
  qed
  have parteq: "a < mid" if "(d', mid) = partitionEqual d a b p"
    for d d' :: "Score list" and a b p mid
  proof -
    from that have "mid = nat (snd (partitionEqual_loop (Swap d a p) a (int a + 1) (int b - 1)))"
      by (simp add: partitionEqual_def Let_def split: prod.splits)
    with eqloop [of "int a + 1" "Swap d a p" a "int b - 1"] show ?thesis by auto
  qed
  show ?thesis
  proof (relation "measure (\<lambda>(data, a, b, limit, wasBalanced, wasPartitioned). b - a)",
      goal_cases)
    case 1
    show ?case by simp
  next
    case (2 data a b limit wasBalanced wasPartitioned x xa xb y xaa xab ya xac xad yaa xae yab
        xaf xag yac xc xd yad)
    from 2 have "a < b" by (simp add: maxInsertion_def)
    moreover from 2 have "(xd, yad) = partitionEqual xag a b xae" by simp
    then have "a < yad" by (rule parteq)
    ultimately show ?case by simp
  next
    case (3 data a b limit wasBalanced wasPartitioned x xa xb y xaa xab ya xac xad yaa xae yab
        xaf xag yac xah xai yad xaj yae xak xal xam)
    from 3 have ab: "a < b" by (simp add: maxInsertion_def)
    from 3 have "(xai, xaj, yae) = partition_sort xag a b xae" by simp
    from part [OF ab this] ab show ?case by auto
  next
    case (4 data a b limit wasBalanced wasPartitioned x xa xb y xaa xab ya xac xad yaa xae yab
        xaf xag yac xah xai yad xaj yae xak xal xam)
    from 4 have ab: "a < b" by (simp add: maxInsertion_def)
    from 4 have "(xai, xaj, yae) = partition_sort xag a b xae" by simp
    from part [OF ab this] ab show ?case by auto
  next
    case (5 data a b limit wasBalanced wasPartitioned x xa xb y xaa xab ya xac xad yaa xae yab
        xaf xag yac xah xai yad xaj yae xak xal xam)
    from 5 have ab: "a < b" by (simp add: maxInsertion_def)
    from 5 have "(xai, xaj, yae) = partition_sort xag a b xae" by simp
    from part [OF ab this] ab show ?case by auto
  next
    case (6 data a b limit wasBalanced wasPartitioned x xa xb y xaa xab ya xac xad yaa xae yab
        xaf xag yac xah xai yad xaj yae xak xal xam)
    from 6 have ab: "a < b" by (simp add: maxInsertion_def)
    from 6 have "(xai, xaj, yae) = partition_sort xag a b xae" by simp
    from part [OF ab this] ab show ?case by auto
  qed
qed

declare pdqsort.simps [simp del]

definition sort_Sort :: "Score list \<Rightarrow> Score list" where
  "sort_Sort data =
     (let n = length data
      in if n \<le> 1 then data else pdqsort data 0 n (bits_Len n) True True)"

text \<open>
  \<open>append(s, x)\<close> writes into the array of \<open>s\<close> when it has a spare cell, and copies the
  elements to a new array otherwise. How many spare cells the new array has is the
  runtime's choice (\<open>grow\<close>); they hold zero values.
\<close>

definition append_slice :: "nat \<Rightarrow> Score slice \<Rightarrow> Score \<Rightarrow> Score slice" where
  "append_slice grow s x =
     (if spare s \<noteq> [] then \<lparr>elems = elems s @ [x], spare = tl (spare s)\<rparr>
      else \<lparr>elems = elems s @ [x], spare = replicate grow zeroScore\<rparr>)"

definition shouldAdd :: "Score list \<Rightarrow> Score \<Rightarrow> bool" where
  \<comment> \<open>The local variable \<open>shouldAdd\<close> of \<open>AddScore\<close>, after its first \<open>if\<close>.\<close>
  "shouldAdd scores newScore =
     (if length scores < MaxHighScores then True
      else (let tempScores = sort_Sort scores
            in Less newScore (tempScores ! (length tempScores - 1))))"

text \<open>
  \<open>AddScore\<close> returns the updated slice and whether the score is in it. The third
  component is its effect on the caller: the argument slice as the caller sees it when
  the call returns. \<open>append\<close> and \<open>sort.Sort\<close> work on the argument's own array when it
  has a spare cell.
\<close>

definition AddScore :: "nat \<Rightarrow> Score slice \<Rightarrow> Score \<Rightarrow> Score slice \<times> bool \<times> Score slice" where
  "AddScore grow scores newScore =
     (if shouldAdd (elems scores) newScore then
        (let scores1 = append_slice grow scores newScore;
             scores2 = scores1\<lparr>elems := sort_Sort (elems scores1)\<rparr>;
             scores3 = (if length (elems scores2) > MaxHighScores
                        then reslice scores2 MaxHighScores else scores2);
             seen = (if spare scores \<noteq> [] then reslice scores2 (length (elems scores))
                     else scores)
         in (scores3, newScore \<in> set (elems scores3), seen))
      else (scores, False, scores))"

definition newList :: "Score slice \<times> bool \<times> Score slice \<Rightarrow> Score slice" where
  \<comment> \<open>The first result of \<open>AddScore\<close>.\<close>
  "newList r = fst r"

definition retained :: "Score slice \<times> bool \<times> Score slice \<Rightarrow> bool" where
  \<comment> \<open>The second result of \<open>AddScore\<close>.\<close>
  "retained r = fst (snd r)"

definition seen_by_caller :: "Score slice \<times> bool \<times> Score slice \<Rightarrow> Score slice" where
  \<comment> \<open>The argument slice of \<open>AddScore\<close> after the call.\<close>
  "seen_by_caller r = snd (snd r)"

text \<open>The score a comparison reads.\<close>

definition score_of :: "Score \<Rightarrow> int" where
  "score_of s = sint (Score s)"

text \<open>The prefix of an insertion sort in progress, last element first.\<close>

fun ins_rev :: "Score \<Rightarrow> Score list \<Rightarrow> Score list" where
  "ins_rev x [] = [x]"
| "ins_rev x (y # ys) = (if Less x y then y # ins_rev x ys else x # y # ys)"

section \<open>internal/game/pacman.go: the entity\<close>

text \<open>
  A \<open>float64\<close> is a value of a type \<open>'f\<close> about which the model fixes nothing. Its \<open>+\<close>, \<open>-\<close>,
  \<open>*\<close>, \<open><\<close>, \<open>>\<close> and \<open>0\<close> are those of the type classes \<open>plus\<close>, \<open>minus\<close>, \<open>times\<close>, \<open>ord\<close> and
  \<open>zero\<close>, which carry no law; the conversions to \<open>float64\<close> and the one constant that is not
  zero are the fields of a record \<open>F\<close> that every function computing with a \<open>float64\<close>
  takes. Each expression of the model is the expression of the code, operation by
  operation, so what is proved holds whatever the operations do: with the rounding, the
  infinities and the NaNs of IEEE 754 as well as without them. A \<open>time.Time\<close> is a number
  of nanoseconds, and so is a \<open>time.Duration\<close>. The mutex of an entity serialises its
  methods; each method is one atomic step of the model.
\<close>

record 'f floats =
  float64 :: "go_int \<Rightarrow> 'f"  \<comment> \<open>the conversion \<open>float64(n)\<close> of an \<open>int\<close>\<close>
  Seconds :: "int \<Rightarrow> 'f"  \<comment> \<open>\<open>Duration.Seconds\<close>\<close>
  lit_1_1 :: 'f  \<comment> \<open>the constant \<open>1.1\<close>\<close>

definition DirHorizontal :: rune where
  "DirHorizontal = 72"

definition DirVertical :: rune where
  "DirVertical = 86"

record 'f Pacman =
  ID :: go_int
  Radius :: 'f
  PosX :: 'f
  PosY :: 'f
  Speed :: 'f
  Direction :: rune
  SubDirection :: go_int
  IsStopped :: bool
  WaitTimeMs :: go_int
  Bounces :: go_int
  animFrame :: go_int
  lastAnimTime :: int
  animInterval :: int

definition go_rem :: "go_int \<Rightarrow> go_int \<Rightarrow> go_int" where
  \<comment> \<open>Go's \<open>%\<close>: the remainder of the division that truncates towards zero.\<close>
  "go_rem a b = word_of_int (sint a smod sint b)"

text \<open>
  \<open>Update\<close> takes the reading of the clock (\<open>now\<close>) as an argument; it returns the entity
  after the call and the number of bounces of this step.
\<close>

definition Pacman_Update ::
    "'f floats \<Rightarrow> int \<Rightarrow> 'f \<Rightarrow> 'f \<Rightarrow> 'f \<Rightarrow> ('f::{zero,plus,minus,times,ord}) Pacman
       \<Rightarrow> 'f Pacman \<times> go_int" where
  "Pacman_Update F now dt screenWidth screenHeight p =
     (if IsStopped p then (p, 0)
      else
        (let p1 = (if now - lastAnimTime p > animInterval p
                   then p\<lparr>animFrame := go_rem (animFrame p + 1) 2, lastAnimTime := now\<rparr>
                   else p);
             distance = Speed p1 * dt;
             startBounces = Bounces p1;
             (p2, bounced) =
               (if Direction p1 = DirHorizontal then
                  (let q = p1\<lparr>PosX := PosX p1 + distance * float64 F (SubDirection p1)\<rparr>
                   in if PosX q - Radius q < 0 \<and> SubDirection q = - 1
                      then (q\<lparr>PosX := Radius q, SubDirection := SubDirection q * (- 1)\<rparr>, True)
                      else if PosX q + Radius q > screenWidth \<and> SubDirection q = 1
                      then (q\<lparr>PosX := screenWidth - Radius q,
                              SubDirection := SubDirection q * (- 1)\<rparr>, True)
                      else (q, False))
                else
                  (let q = p1\<lparr>PosY := PosY p1 + distance * float64 F (SubDirection p1)\<rparr>
                   in if PosY q - Radius q < 0 \<and> SubDirection q = - 1
                      then (q\<lparr>PosY := Radius q, SubDirection := SubDirection q * (- 1)\<rparr>, True)
                      else if PosY q + Radius q > screenHeight \<and> SubDirection q = 1
                      then (q\<lparr>PosY := screenHeight - Radius q,
                              SubDirection := SubDirection q * (- 1)\<rparr>, True)
                      else (q, False)));
             p3 = (if bounced then p2\<lparr>Bounces := Bounces p2 + 1\<rparr> else p2)
         in (p3, Bounces p3 - startBounces)))"

definition Bounce :: "'f floats \<Rightarrow> ('f::{plus,times}) Pacman \<Rightarrow> 'f Pacman \<times> bool" where
  "Bounce F p =
     (if IsStopped p then (p, False)
      else
        (let p1 = p\<lparr>SubDirection := SubDirection p * (- 1), Bounces := Bounces p + 1\<rparr>;
             nudge = lit_1_1 F;
             p2 = (if Direction p1 = DirHorizontal
                   then p1\<lparr>PosX := PosX p1 + nudge * float64 F (SubDirection p1)\<rparr>
                   else p1\<lparr>PosY := PosY p1 + nudge * float64 F (SubDirection p1)\<rparr>)
         in (p2, True)))"

definition Stop :: "'f Pacman \<Rightarrow> 'f Pacman \<times> bool" where
  "Stop p = (if \<not> IsStopped p then (p\<lparr>IsStopped := True\<rparr>, True) else (p, False))"

definition GetData :: "'f Pacman \<Rightarrow> 'f \<times> 'f \<times> 'f \<times> go_int \<times> bool" where
  "GetData p = (PosX p, PosY p, Radius p, animFrame p, IsStopped p)"

definition GetStateForCollisionCheck :: "'f Pacman \<Rightarrow> 'f \<times> 'f \<times> 'f \<times> bool" where
  "GetStateForCollisionCheck p = (PosX p, PosY p, Radius p, IsStopped p)"

text \<open>A sequence of calls on one entity.\<close>

datatype 'f pacman_call = CallUpdate int 'f 'f 'f | CallBounce | CallStop

fun apply_call ::
    "'f floats \<Rightarrow> 'f pacman_call \<Rightarrow> ('f::{zero,plus,minus,times,ord}) Pacman \<Rightarrow> 'f Pacman" where
  "apply_call F (CallUpdate now dt screenWidth screenHeight) p =
     fst (Pacman_Update F now dt screenWidth screenHeight p)"
| "apply_call F CallBounce p = fst (Bounce F p)"
| "apply_call F CallStop p = fst (Stop p)"

definition run_calls ::
    "'f floats \<Rightarrow> 'f pacman_call list \<Rightarrow> ('f::{zero,plus,minus,times,ord}) Pacman \<Rightarrow> 'f Pacman" where
  "run_calls F cs p = fold (apply_call F) cs p"

text \<open>The coordinate an entity moves along, and the arena's extent along it.\<close>

definition axis_pos :: "'f Pacman \<Rightarrow> 'f" where
  "axis_pos p = (if Direction p = DirHorizontal then PosX p else PosY p)"

definition axis_bound :: "'f Pacman \<Rightarrow> 'f \<Rightarrow> 'f \<Rightarrow> 'f" where
  "axis_bound p screenWidth screenHeight =
     (if Direction p = DirHorizontal then screenWidth else screenHeight)"

section \<open>internal/game/pacman.go: the game\<close>

text \<open>
  The game owns its entities: \<open>Pacmans\<close> is the list of the entities its pointers lead to,
  each pointer to an entity of its own. An \<open>error\<close> is its message. Log output and the
  audio manager (every use of which is commented out on these paths) are left out. The
  read/write mutex of the game serialises its methods; each is one atomic step.
\<close>

type_synonym error = string

datatype GameState =
  StateStarting | StatePlaying | StateGameOver | StateEnteringHighScore | StateHallOfFame

record 'f Game =
  Pacmans :: "'f Pacman list"
  Level :: go_int
  TotalBounces :: go_int
  ScreenWidth :: 'f
  ScreenHeight :: 'f
  CurrentState :: GameState
  HighScores :: "Score slice"
  highScorePath :: string
  saveGamePath :: string
  levelConfigPath :: string
  lastUpdateTime :: int
  deltaTime :: 'f
  playerNameInput :: "rune list"
  isNewHighScore :: bool

definition empty_scores :: "Score slice" where
  \<comment> \<open>\<open>[]model.Score{}\<close>: no element, no capacity.\<close>
  "empty_scores = \<lparr>elems = [], spare = []\<rparr>"

definition NewGame :: "'f \<Rightarrow> 'f \<Rightarrow> ('f::zero) Game" where
  \<comment> \<open>The fields \<open>NewGame\<close> does not set hold their zero values.\<close>
  "NewGame screenWidth screenHeight =
     \<lparr>Pacmans = [], Level = - 1, TotalBounces = 0, ScreenWidth = screenWidth,
      ScreenHeight = screenHeight, CurrentState = StateStarting, HighScores = empty_scores,
      highScorePath = [], saveGamePath = [], levelConfigPath = [], lastUpdateTime = 0,
      deltaTime = 0, playerNameInput = [], isNewHighScore = False\<rparr>"

subsection \<open>Formatting\<close>

function nat_digits :: "nat \<Rightarrow> string" where
  "nat_digits n =
     (if n < 10 then [char_of (48 + n)] else nat_digits (n div 10) @ [char_of (48 + n mod 10)])"
  by pat_completeness auto
termination
  by (relation "measure (\<lambda>n. n)") auto

declare nat_digits.simps [simp del]

definition Itoa :: "go_int \<Rightarrow> string" where
  \<comment> \<open>The verb \<open>%d\<close> of \<open>fmt.Sprintf\<close> on an \<open>int\<close>.\<close>
  "Itoa n = (if sint n < 0 then CHR ''-'' # nat_digits (nat (- sint n))
             else nat_digits (nat (sint n)))"

definition EncodeRune :: "rune \<Rightarrow> string" where
  \<comment> \<open>The UTF-8 bytes of one rune, as the conversion \<open>string([]rune)\<close> writes them:
      a surrogate or a value beyond U+10FFFF becomes U+FFFD.\<close>
  "EncodeRune r =
     (let i = unat r in
      if i \<le> 127 then [char_of i]
      else if i \<le> 2047 then [char_of (192 + i div 64), char_of (128 + i mod 64)]
      else if i > 1114111 \<or> (55296 \<le> i \<and> i \<le> 57343)
      then [char_of (239::nat), char_of (191::nat), char_of (189::nat)]
      else if i \<le> 65535
      then [char_of (224 + i div 4096), char_of (128 + (i div 64) mod 64), char_of (128 + i mod 64)]
      else [char_of (240 + i div 262144), char_of (128 + (i div 4096) mod 64),
            char_of (128 + (i div 64) mod 64), char_of (128 + i mod 64)])"

definition string_of_runes :: "rune list \<Rightarrow> string" where
  "string_of_runes rs = concat (map EncodeRune rs)"

subsection \<open>Loading\<close>

text \<open>
  The loader returns an error or the loaded data. \<open>loadHighScoresFunc\<close> is the package
  variable of that name: \<open>None\<close> while it is \<open>nil\<close>. \<open>now\<close> is the reading of the clock.
\<close>

definition install_high_scores ::
    "(string \<Rightarrow> error + Score slice) option \<Rightarrow> 'f Game \<Rightarrow> 'f Game" where
  \<comment> \<open>The block \<open>if loadHighScoresFunc != nil { ... } else { ... }\<close> of both load requests.\<close>
  "install_high_scores loadHighScoresFunc g =
     (case loadHighScoresFunc of
        Some f \<Rightarrow>
          (case f (highScorePath g) of
             Inl err \<Rightarrow> g\<lparr>HighScores := empty_scores\<rparr>
           | Inr loadedScores \<Rightarrow> g\<lparr>HighScores := loadedScores\<rparr>)
      | None \<Rightarrow> g\<lparr>HighScores := empty_scores\<rparr>)"

definition RequestLoadLevel ::
    "int \<Rightarrow> (string \<Rightarrow> error + Score slice) option \<Rightarrow> go_int \<Rightarrow> string
       \<Rightarrow> (string \<Rightarrow> error + 'f Game) \<Rightarrow> 'f Game \<Rightarrow> error option \<times> 'f Game" where
  "RequestLoadLevel now loadHighScoresFunc level configPath loadFunc g =
     (case loadFunc configPath of
        Inl err \<Rightarrow>
          (Some (''failed to load level config '' @ [CHR 0x27] @ configPath @ [CHR 0x27]
                   @ '': '' @ err), g)
      | Inr loadedGameData \<Rightarrow>
          (let g1 = g\<lparr>Level := Level loadedGameData,
                       Pacmans := Pacmans loadedGameData,
                       TotalBounces := TotalBounces loadedGameData,
                       CurrentState := StatePlaying,
                       levelConfigPath := configPath\<rparr>;
               g2 = g1\<lparr>highScorePath := ''assets/highscores/highscores_'' @ Itoa (Level g1) @ ''.gob'',
                        saveGamePath := ''assets/saves/savegame_'' @ Itoa (Level g1) @ ''.txt'',
                        playerNameInput := [],
                        isNewHighScore := False\<rparr>;
               g3 = install_high_scores loadHighScoresFunc g2
           in (None, g3\<lparr>lastUpdateTime := now\<rparr>)))"

definition RequestLoadSavedGame ::
    "int \<Rightarrow> (string \<Rightarrow> error + Score slice) option \<Rightarrow> string
       \<Rightarrow> (string \<Rightarrow> error + 'f Game) \<Rightarrow> 'f Game \<Rightarrow> error option \<times> 'f Game" where
  "RequestLoadSavedGame now loadHighScoresFunc savePath loadFunc g =
     (case loadFunc savePath of
        Inl err \<Rightarrow>
          (Some (''failed to load saved game '' @ [CHR 0x27] @ savePath @ [CHR 0x27]
                   @ '': '' @ err), g)
      | Inr loadedGameData \<Rightarrow>
          (let g1 = g\<lparr>Level := Level loadedGameData,
                       Pacmans := Pacmans loadedGameData,
                       TotalBounces := TotalBounces loadedGameData,
                       CurrentState := StatePlaying\<rparr>;
               g2 = g1\<lparr>levelConfigPath := ''assets/levels/level_'' @ Itoa (Level g1) @ ''.txt'',
                        highScorePath := ''assets/highscores/highscores_'' @ Itoa (Level g1) @ ''.gob'',
                        saveGamePath := savePath,
                        playerNameInput := [],
                        isNewHighScore := False\<rparr>;
               g3 = install_high_scores loadHighScoresFunc g2
           in (None, g3\<lparr>lastUpdateTime := now\<rparr>)))"

subsection \<open>The tick\<close>

fun move_all ::
    "'f floats \<Rightarrow> int \<Rightarrow> 'f \<Rightarrow> 'f \<Rightarrow> 'f \<Rightarrow> ('f::{zero,plus,minus,times,ord}) Pacman list \<Rightarrow> bool \<Rightarrow> go_int
       \<Rightarrow> 'f Pacman list \<times> bool \<times> go_int" where
  \<comment> \<open>The loop \<open>for _, p := range g.Pacmans\<close> of \<open>Update\<close>, with \<open>allStopped\<close> and
      \<open>bouncesThisFrame\<close> as accumulators.\<close>
  "move_all F now dt w h [] allStopped bouncesThisFrame = ([], allStopped, bouncesThisFrame)"
| "move_all F now dt w h (p # ps) allStopped bouncesThisFrame =
     (let (p', bounces) = Pacman_Update F now dt w h p;
          (_, _, _, _, stopped) = GetData p';
          (ps', allStopped', bouncesThisFrame') =
             move_all F now dt w h ps (if \<not> stopped then False else allStopped)
               (bouncesThisFrame + bounces)
      in (p' # ps', allStopped', bouncesThisFrame'))"

function collide_inner ::
    "'f floats \<Rightarrow> ('f::{zero,plus,minus,times,ord}) Pacman list \<Rightarrow> nat \<Rightarrow> nat \<Rightarrow> 'f \<Rightarrow> 'f \<Rightarrow> 'f \<Rightarrow> nat \<Rightarrow> go_int
       \<Rightarrow> 'f Pacman list \<times> go_int" where
  \<comment> \<open>The loop \<open>for j := i + 1; j < numPacmans; j++\<close>, entered with the snapshot of \<open>p1\<close>.\<close>
  "collide_inner F ps numPacmans i p1PosX p1PosY p1Radius j bouncesThisFrame =
     (if j < numPacmans then
        (let (p2PosX, p2PosY, p2Radius, p2Stopped) = GetStateForCollisionCheck (ps ! j)
         in if p2Stopped
            then collide_inner F ps numPacmans i p1PosX p1PosY p1Radius (j + 1) bouncesThisFrame
            else
              (let dx = p1PosX - p2PosX;
                   dy = p1PosY - p2PosY;
                   distSq = dx * dx + dy * dy;
                   radiiSum = p1Radius + p2Radius
               in if distSq > 0 \<and> distSq < radiiSum * radiiSum
                  then
                    (let (p1', bounced1) = Bounce F (ps ! i);
                         ps1 = ps[i := p1'];
                         (p2', bounced2) = Bounce F (ps1 ! j);
                         ps2 = ps1[j := p2'];
                         n1 = (if bounced1 then bouncesThisFrame + 1 else bouncesThisFrame);
                         n2 = (if bounced2 then n1 + 1 else n1)
                     in collide_inner F ps2 numPacmans i p1PosX p1PosY p1Radius (j + 1) n2)
                  else collide_inner F ps numPacmans i p1PosX p1PosY p1Radius (j + 1)
                         bouncesThisFrame))
      else (ps, bouncesThisFrame))"
  by pat_completeness auto
termination
  by (relation "measure (\<lambda>(F, ps, numPacmans, i, x, y, r, j, n). numPacmans - j)") auto

declare collide_inner.simps [simp del]

function collide_outer ::
    "'f floats \<Rightarrow> ('f::{zero,plus,minus,times,ord}) Pacman list \<Rightarrow> nat \<Rightarrow> nat \<Rightarrow> go_int
       \<Rightarrow> 'f Pacman list \<times> go_int" where
  \<comment> \<open>The loop \<open>for i := 0; i < numPacmans; i++\<close>.\<close>
  "collide_outer F ps numPacmans i bouncesThisFrame =
     (if i < numPacmans then
        (let (p1PosX, p1PosY, p1Radius, p1Stopped) = GetStateForCollisionCheck (ps ! i)
         in if p1Stopped then collide_outer F ps numPacmans (i + 1) bouncesThisFrame
            else
              (let (ps', n) = collide_inner F ps numPacmans i p1PosX p1PosY p1Radius (i + 1)
                                bouncesThisFrame
               in collide_outer F ps' numPacmans (i + 1) n))
      else (ps, bouncesThisFrame))"
  by pat_completeness auto
termination
  by (relation "measure (\<lambda>(F, ps, numPacmans, i, n). numPacmans - i)") auto

declare collide_outer.simps [simp del]

definition Game_Update ::
    "'f floats \<Rightarrow> int \<Rightarrow> nat \<Rightarrow> ('f::{zero,plus,minus,times,ord}) Game \<Rightarrow> 'f Game" where
  "Game_Update F now grow g =
     (let g1 = g\<lparr>deltaTime := Seconds F (now - lastUpdateTime g),
                  lastUpdateTime := now\<rparr>
      in if CurrentState g1 \<noteq> StatePlaying then g1
         else if Level g1 <s 0 then g1
         else
           (let (ps1, allStopped, n1) =
                  move_all F now (deltaTime g1) (ScreenWidth g1) (ScreenHeight g1) (Pacmans g1) True 0;
                numPacmans = length ps1;
                (ps2, bouncesThisFrame) = collide_outer F ps1 numPacmans 0 n1;
                g2 = g1\<lparr>Pacmans := ps2, TotalBounces := TotalBounces g1 + bouncesThisFrame\<rparr>
            in if allStopped then
                 (let g3 = g2\<lparr>CurrentState := StateGameOver\<rparr>;
                      r = AddScore grow (HighScores g3) \<lparr>Name = [], Score = TotalBounces g3\<rparr>;
                      g4 = g3\<lparr>HighScores := seen_by_caller r, isNewHighScore := retained r\<rparr>
                  in if isNewHighScore g4
                     then g4\<lparr>CurrentState := StateEnteringHighScore, playerNameInput := []\<rparr>
                     else g4)
               else g2))"

subsection \<open>Name entry\<close>

definition HandleTextInput :: "rune list \<Rightarrow> 'f Game \<Rightarrow> 'f Game" where
  "HandleTextInput chars g =
     (if CurrentState g \<noteq> StateEnteringHighScore then g
      else if length (playerNameInput g) < 15
      then g\<lparr>playerNameInput := playerNameInput g @ chars\<rparr>
      else g)"

definition HandleBackspace :: "'f Game \<Rightarrow> 'f Game" where
  "HandleBackspace g =
     (if CurrentState g \<noteq> StateEnteringHighScore \<and> length (playerNameInput g) > 0
      then g\<lparr>playerNameInput := take (length (playerNameInput g) - 1) (playerNameInput g)\<rparr>
      else g)"

text \<open>
  \<open>HandleEnter\<close> returns the game and the calls it made to the injected writer, each with
  the writer's answer (\<open>None\<close> for \<open>nil\<close>), which the code only logs.
\<close>

definition HandleEnter ::
    "nat \<Rightarrow> (Score list \<Rightarrow> string \<Rightarrow> error option) \<Rightarrow> 'f Game
       \<Rightarrow> 'f Game \<times> (Score list \<times> string \<times> error option) list" where
  "HandleEnter grow saveFunc g =
     (if CurrentState g \<noteq> StateEnteringHighScore then (g, [])
      else
        (let playerName = string_of_runes (playerNameInput g);
             playerName = (if playerName = [] then ''Anonymous'' else playerName);
             r = AddScore grow (HighScores g) \<lparr>Name = playerName, Score = TotalBounces g\<rparr>;
             g1 = g\<lparr>HighScores := newList r\<rparr>;
             added = retained r;
             calls = (if added
                      then [(elems (HighScores g1), highScorePath g1,
                             saveFunc (elems (HighScores g1)) (highScorePath g1))]
                      else [])
         in (g1\<lparr>CurrentState := StateHallOfFame, playerNameInput := []\<rparr>, calls)))"

section \<open>Example values\<close>

text \<open>
  The examples are evaluated over the real numbers with exact operations; the constant is
  the \<open>float64\<close> nearest to 1.1. Where an example reads a position, its inputs are whole
  numbers small enough that \<open>float64\<close> arithmetic gives the same value.
\<close>

definition exact :: "real floats" where
  "exact = \<lparr>float64 = (\<lambda>n. real_of_int (sint n)),
            Seconds = (\<lambda>d. real_of_int d / 1000000000),
            lit_1_1 = 2476979795053773 / 2251799813685248\<rparr>"

definition full_board :: "Score slice" where
  "full_board = \<lparr>elems = map (\<lambda>n. \<lparr>Name = ''p'', Score = n\<rparr>) [1, 2, 3, 4, 5, 6, 7, 8, 9, 10],
                  spare = []\<rparr>"

definition unsorted_board :: "Score slice" where
  "unsorted_board = \<lparr>elems = map (\<lambda>n. \<lparr>Name = ''p'', Score = n\<rparr>) [10, 9, 8, 7, 6, 5, 4, 3, 2, 1],
                      spare = []\<rparr>"

definition tie_board :: "Score slice" where
  "tie_board = \<lparr>elems = [\<lparr>Name = ''a'', Score = 3\<rparr>, \<lparr>Name = ''b'', Score = 7\<rparr>,
                           \<lparr>Name = ''c'', Score = 3\<rparr>], spare = []\<rparr>"

definition runner :: "real Pacman" where
  "runner = \<lparr>ID = 0, Radius = 10, PosX = 625, PosY = 50, Speed = 60, Direction = DirHorizontal,
     SubDirection = 1, IsStopped = False, WaitTimeMs = 99, Bounces = 0, animFrame = 0,
     lastAnimTime = 0, animInterval = 150000000\<rparr>"

definition worn_out :: "real Pacman" where
  "worn_out = runner\<lparr>Bounces := 9223372036854775807\<rparr>"

definition entering14 :: "real Game" where
  \<comment> \<open>Name entry after a run of 50 bounces, 14 letters typed.\<close>
  "entering14 = (NewGame 640 480)\<lparr>Level := 0, TotalBounces := 50,
     CurrentState := StateEnteringHighScore,
     highScorePath := ''assets/highscores/highscores_0.gob'',
     playerNameInput := replicate 14 65\<rparr>"

definition shut_out :: "real Game" where
  \<comment> \<open>Name entry with a full board of better scores.\<close>
  "shut_out = entering14\<lparr>HighScores := full_board\<rparr>"

definition failing_writer :: "Score list \<Rightarrow> string \<Rightarrow> error option" where
  "failing_writer scores path = Some ''disk full''"

definition failing_loader :: "string \<Rightarrow> error + real Game" where
  "failing_loader path = Inl ''no such file''"

definition level0_loader :: "string \<Rightarrow> error + real Game" where
  "level0_loader path = Inr ((NewGame 0 0)\<lparr>Level := 0, Pacmans := [runner]\<rparr>)"

definition failing_scores_loader :: "string \<Rightarrow> error + Score slice" where
  "failing_scores_loader path = Inl ''unexpected EOF''"

definition caught :: "real Pacman" where
  "caught = runner\<lparr>IsStopped := True\<rparr>"

definition finished_level :: "real Game" where
  \<comment> \<open>Level 0 with its only entity stopped after 3 bounces, and no high score yet.\<close>
  "finished_level = (NewGame 640 480)\<lparr>Level := 0, TotalBounces := 3, CurrentState := StatePlaying,
     Pacmans := [caught]\<rparr>"

definition negative_level :: "real Game" where
  \<comment> \<open>A playing game with a negative level, as a save file whose level line is -2 leaves it.\<close>
  "negative_level = finished_level\<lparr>Level := - 2\<rparr>"

definition twelve_board :: "Score slice" where
  \<comment> \<open>Twelve scores, as a high score file written by another program may hold them.\<close>
  "twelve_board =
     \<lparr>elems = [\<lparr>Name = ''a'', Score = 9\<rparr>, \<lparr>Name = ''b'', Score = 8\<rparr>, \<lparr>Name = ''c'', Score = 4\<rparr>,
               \<lparr>Name = ''d'', Score = 5\<rparr>, \<lparr>Name = ''e'', Score = 3\<rparr>, \<lparr>Name = ''f'', Score = 5\<rparr>,
               \<lparr>Name = ''g'', Score = 4\<rparr>, \<lparr>Name = ''h'', Score = 5\<rparr>, \<lparr>Name = ''i'', Score = 2\<rparr>,
               \<lparr>Name = ''j'', Score = 5\<rparr>, \<lparr>Name = ''k'', Score = 4\<rparr>, \<lparr>Name = ''l'', Score = 7\<rparr>],
      spare = []\<rparr>"


definition roomy_board :: "Score slice" where
  \<comment> \<open>Two scores in an array of four cells.\<close>
  "roomy_board = \<lparr>elems = [\<lparr>Name = ''a'', Score = 5\<rparr>, \<lparr>Name = ''b'', Score = 7\<rparr>],
                   spare = [zeroScore, zeroScore]\<rparr>"

section \<open>The scoreboard: sort.Sort is a stable sort on at most 12 elements\<close>

lemma Less_score_of: "Less a b \<longleftrightarrow> score_of a < score_of b"
  by (simp add: Less_def score_of_def word_sless_alt)

lemma insertionSort_inner_ins_rev:
  "insertionSort_inner (rev ys @ x # rest) 0 (length ys) = rev (ins_rev x ys) @ rest"
proof (induction ys arbitrary: rest)
  case Nil
  show ?case by (subst insertionSort_inner.simps) simp
next
  case (Cons y ys)
  have nth_x: "(rev ys @ y # x # rest) ! Suc (length ys) = x"
    by (simp add: nth_append)
  have nth_y: "(rev ys @ y # x # rest) ! length ys = y"
    by (simp add: nth_append)
  have swap: "Swap (rev ys @ y # x # rest) (Suc (length ys)) (length ys) = rev ys @ x # y # rest"
    by (simp add: Swap_def nth_append list_update_append)
  show ?case
  proof (cases "Less x y")
    case True
    have "insertionSort_inner (rev (y # ys) @ x # rest) 0 (length (y # ys))
            = insertionSort_inner (rev ys @ x # y # rest) 0 (length ys)"
      using True nth_x nth_y swap
      by (subst insertionSort_inner.simps) simp
    also have "\<dots> = rev (ins_rev x ys) @ y # rest"
      by (rule Cons.IH)
    finally show ?thesis using True by simp
  next
    case False
    have "insertionSort_inner (rev (y # ys) @ x # rest) 0 (length (y # ys))
            = rev ys @ y # x # rest"
      using False nth_x nth_y
      by (subst insertionSort_inner.simps) simp
    then show ?thesis using False by simp
  qed
qed

lemma length_ins_rev: "length (ins_rev x ys) = Suc (length ys)"
  by (induction ys) auto

lemma insertionSort_outer_fold:
  "insertionSort_outer (rev acc @ qs) 0 (length acc + length qs) (length acc)
     = rev (fold ins_rev qs acc)"
proof (induction qs arbitrary: acc)
  case Nil
  show ?case by (subst insertionSort_outer.simps) simp
next
  case (Cons q qs)
  have "insertionSort_outer (rev acc @ q # qs) 0 (length acc + length (q # qs)) (length acc)
          = insertionSort_outer (rev (ins_rev q acc) @ qs) 0
              (length (ins_rev q acc) + length qs) (length (ins_rev q acc))"
    by (subst insertionSort_outer.simps)
       (simp add: insertionSort_inner_ins_rev length_ins_rev)
  also have "\<dots> = rev (fold ins_rev qs (ins_rev q acc))"
    by (rule Cons.IH)
  finally show ?case by simp
qed

lemma insertionSort_fold: "insertionSort xs 0 (length xs) = rev (fold ins_rev xs [])"
proof (cases xs)
  case Nil
  then show ?thesis
    by (simp add: insertionSort_def) (subst insertionSort_outer.simps, simp)
next
  case (Cons x ys)
  have "insertionSort_outer (rev [x] @ ys) 0 (length [x] + length ys) (length [x])
          = rev (fold ins_rev ys [x])"
    by (rule insertionSort_outer_fold)
  with Cons show ?thesis
    by (simp add: insertionSort_def)
qed

lemma sort_Sort_short:
  assumes "length xs \<le> 12"
  shows "sort_Sort xs = insertionSort xs 0 (length xs)"
proof (cases "length xs \<le> 1")
  case True
  then have "xs = [] \<or> (\<exists>x. xs = [x])"
    by (cases xs) auto
  then have "rev (fold ins_rev xs []) = xs" by auto
  with True show ?thesis
    by (simp add: sort_Sort_def insertionSort_fold)
next
  case False
  with assms show ?thesis
    by (simp add: sort_Sort_def) (subst pdqsort.simps, simp add: maxInsertion_def)
qed

lemma mset_ins_rev: "mset (ins_rev x ys) = add_mset x (mset ys)"
  by (induction ys) auto

lemma mset_fold_ins_rev: "mset (fold ins_rev xs acc) = mset xs + mset acc"
  by (induction xs arbitrary: acc) (auto simp: mset_ins_rev)

lemma filter_ins_rev:
  "filter (\<lambda>s. score_of s = k) (ins_rev x ys) = filter (\<lambda>s. score_of s = k) (x # ys)"
  by (induction ys) (auto simp: Less_score_of)

lemma filter_fold_ins_rev:
  "filter (\<lambda>s. score_of s = k) (fold ins_rev xs acc)
     = rev (filter (\<lambda>s. score_of s = k) xs) @ filter (\<lambda>s. score_of s = k) acc"
proof (induction xs arbitrary: acc)
  case Nil
  show ?case by simp
next
  case (Cons x xs)
  have "filter (\<lambda>s. score_of s = k) (fold ins_rev (x # xs) acc)
          = rev (filter (\<lambda>s. score_of s = k) xs) @ filter (\<lambda>s. score_of s = k) (ins_rev x acc)"
    using Cons.IH [of "ins_rev x acc"] by simp
  then show ?case by (simp add: filter_ins_rev)
qed

lemma sorted_ins_rev:
  "sorted (rev (map score_of ys)) \<Longrightarrow> sorted (rev (map score_of (ins_rev x ys)))"
proof (induction ys)
  case Nil
  show ?case by simp
next
  case (Cons y ys)
  from Cons.prems have tail: "sorted (rev (map score_of ys))"
    and le: "\<forall>z \<in> set ys. score_of z \<le> score_of y"
    by (auto simp: sorted_append)
  show ?case
  proof (cases "Less x y")
    case True
    have "set (ins_rev x ys) = insert x (set ys)"
      using mset_ins_rev [of x ys] by (metis set_mset_add_mset_insert set_mset_mset)
    with True le Cons.IH [OF tail] show ?thesis
      by (auto simp: sorted_append Less_score_of)
  next
    case False
    then have "score_of y \<le> score_of x" by (simp add: Less_score_of)
    with False Cons.prems le show ?thesis
      by (auto simp: sorted_append)
  qed
qed

lemma sorted_fold_ins_rev:
  "sorted (rev (map score_of acc)) \<Longrightarrow> sorted (rev (map score_of (fold ins_rev xs acc)))"
  by (induction xs arbitrary: acc) (auto simp: sorted_ins_rev)

lemma sort_Sort_sort_key:
  assumes "length xs \<le> 12"
  shows "sort_Sort xs = sort_key score_of xs"
proof -
  let ?ys = "rev (fold ins_rev xs [])"
  have m: "mset ?ys = mset xs"
    by (simp add: mset_fold_ins_rev)
  have f: "filter (\<lambda>x. score_of k = score_of x) ?ys = filter (\<lambda>x. score_of k = score_of x) xs" for k
  proof -
    have eq: "(\<lambda>x. score_of k = score_of x) = (\<lambda>s. score_of s = score_of k)"
      by auto
    show ?thesis
      unfolding eq by (simp add: filter_fold_ins_rev flip: rev_filter)
  qed
  have s: "sorted (map score_of ?ys)"
    using sorted_fold_ins_rev [of "[]" xs] by (simp add: rev_map)
  have "sort_key score_of xs = ?ys"
    using m f s by (rule properties_for_sort_key)
  then show ?thesis by (simp add: sort_Sort_short [OF assms] insertionSort_fold)
qed


section \<open>The scoreboard: AddScore\<close>

lemma last_sorted_Max:
  fixes ys :: "int list"
  assumes "sorted ys" "ys \<noteq> []"
  shows "last ys = Max (set ys)"
proof -
  from assms(2) obtain zs z where ys: "ys = zs @ [z]"
    by (metis append_butlast_last_id)
  with assms(1) have "\<forall>y \<in> set ys. y \<le> z"
    by (auto simp: sorted_append)
  then have "Max (set ys) = z"
    using ys by (intro Max_eqI) auto
  with ys show ?thesis by simp
qed

lemma Score_eq_score_of: "Score a = Score b \<longleftrightarrow> score_of a = score_of b"
  using signed_word_eqI by (auto simp: score_of_def)

lemma shouldAdd_iff:
  assumes "length xs \<le> 12"
  shows "shouldAdd xs c \<longleftrightarrow>
     (length xs < MaxHighScores \<or> score_of c < Max (score_of ` set xs))"
proof (cases "length xs < MaxHighScores")
  case True
  then show ?thesis by (simp add: shouldAdd_def)
next
  case False
  then have ne: "xs \<noteq> []" by (auto simp: MaxHighScores_def)
  let ?ys = "sort_key score_of xs"
  have ne': "?ys \<noteq> []" using ne by (metis length_sort length_0_conv)
  have "score_of (?ys ! (length ?ys - 1)) = score_of (last ?ys)"
    using ne' by (simp add: last_conv_nth)
  also have "\<dots> = last (map score_of ?ys)"
    using ne' by (simp add: last_map)
  also have "\<dots> = Max (set (map score_of ?ys))"
    using ne' by (intro last_sorted_Max) auto
  also have "\<dots> = Max (score_of ` set xs)" by simp
  finally show ?thesis
    using False by (simp add: shouldAdd_def sort_Sort_sort_key [OF assms] Less_score_of)
qed

lemma AddScore_rejected:
  "\<not> shouldAdd (elems scores) newScore \<Longrightarrow> AddScore grow scores newScore = (scores, False, scores)"
  by (simp add: AddScore_def)

lemma elems_append_slice: "elems (append_slice grow s x) = elems s @ [x]"
  by (simp add: append_slice_def)

lemma AddScore_inserted_elems:
  assumes "shouldAdd (elems scores) newScore" and "length (elems scores) \<le> 11"
  shows "elems (newList (AddScore grow scores newScore))
           = take MaxHighScores (sort_key score_of (elems scores @ [newScore]))"
  using assms
  by (simp add: AddScore_def newList_def Let_def reslice_def elems_append_slice sort_Sort_sort_key)

lemma AddScore_inserted_retained:
  assumes "shouldAdd (elems scores) newScore" and "length (elems scores) \<le> 11"
  shows "retained (AddScore grow scores newScore)
           \<longleftrightarrow> newScore \<in> set (take MaxHighScores (sort_key score_of (elems scores @ [newScore])))"
  using assms
  by (simp add: AddScore_def retained_def Let_def reslice_def elems_append_slice sort_Sort_sort_key)

lemma AddScore_inserted_seen:
  assumes "shouldAdd (elems scores) newScore" and "length (elems scores) \<le> 11"
  shows "seen_by_caller (AddScore grow scores newScore)
           = (if spare scores \<noteq> []
              then \<lparr>elems = take (length (elems scores)) (sort_key score_of (elems scores @ [newScore])),
                    spare = drop (length (elems scores)) (sort_key score_of (elems scores @ [newScore]))
                              @ tl (spare scores)\<rparr>
              else scores)"
  using assms
  by (simp add: AddScore_def seen_by_caller_def Let_def reslice_def append_slice_def sort_Sort_sort_key)

lemma sorted_take_sort_key: "sorted (map score_of (take n (sort_key score_of xs)))"
proof -
  have "sorted (take n (map score_of (sort_key score_of xs)))"
    by (rule sorted_wrt_take) simp
  then show ?thesis by (simp add: take_map)
qed

lemma candidate_survives:
  assumes len: "length xs \<le> MaxHighScores" and add: "shouldAdd xs c"
  shows "c \<in> set (take MaxHighScores (sort_key score_of (xs @ [c])))"
proof (cases "length xs < MaxHighScores")
  case True
  then have "length (sort_key score_of (xs @ [c])) \<le> MaxHighScores" by simp
  then have "take MaxHighScores (sort_key score_of (xs @ [c])) = sort_key score_of (xs @ [c])"
    by simp
  then show ?thesis by simp
next
  case False
  with len have full: "length xs = MaxHighScores" by simp
  then have le12: "length xs \<le> 12" by (simp add: MaxHighScores_def)
  from full add have lt: "score_of c < Max (score_of ` set xs)"
    by (simp add: shouldAdd_iff [OF le12])
  let ?ys = "sort_key score_of (xs @ [c])"
  have lys: "length ?ys = Suc MaxHighScores" using full by simp
  have ne: "?ys \<noteq> []"
    using lys by (metis length_0_conv nat.simps(3))
  have tk: "take MaxHighScores ?ys = butlast ?ys"
    using lys by (simp add: butlast_conv_take)
  have "last (map score_of ?ys) = Max (set (map score_of ?ys))"
    using ne by (intro last_sorted_Max) auto
  also have "\<dots> = Max (insert (score_of c) (score_of ` set xs))" by simp
  also have "\<dots> = Max (score_of ` set xs)"
  proof -
    have "xs \<noteq> []" using full by (auto simp: MaxHighScores_def)
    then have "Max (insert (score_of c) (score_of ` set xs)) = max (score_of c) (Max (score_of ` set xs))"
      by (intro Max_insert) auto
    with lt show ?thesis by simp
  qed
  finally have "score_of (last ?ys) = Max (score_of ` set xs)"
    using ne by (simp add: last_map)
  with lt have "last ?ys \<noteq> c" by auto
  moreover have "c \<in> set ?ys" by simp
  moreover have "?ys = butlast ?ys @ [last ?ys]" using ne by simp
  ultimately have "c \<in> set (butlast ?ys)"
    by (metis Un_iff empty_iff insert_iff list.simps(15) set_append empty_set)
  with tk show ?thesis by simp
qed

lemma not_shouldAdd_worse:
  assumes "length xs = MaxHighScores" "\<forall>s \<in> set xs. score_of s \<le> score_of c"
  shows "\<not> shouldAdd xs c"
proof -
  have ne: "xs \<noteq> []" using assms(1) by (auto simp: MaxHighScores_def)
  then have "Max (score_of ` set xs) \<le> score_of c"
    using assms(2) by (subst Max_le_iff) auto
  moreover from assms(1) have "length xs \<le> 12" by (simp add: MaxHighScores_def)
  ultimately show ?thesis using assms(1) by (simp add: shouldAdd_iff)
qed

text \<open>
  Claim C2, as amended. For every score list of length at most 10 and every candidate,
  \<open>AddScore\<close> returns a list of length at most 10; the returned list is sorted ascending
  by score whenever the input list is sorted ascending or the candidate is inserted; and
  when the input list is full (length 10) and the candidate's score is greater than or
  equal to every score in it, the returned list is the input list unchanged and the
  returned boolean is false.
\<close>

theorem AddScore_sorted_capped:
  assumes "length (elems scores) \<le> MaxHighScores"
  shows "length (elems (newList (AddScore grow scores newScore))) \<le> MaxHighScores
       \<and> (sorted (map score_of (elems scores)) \<or> shouldAdd (elems scores) newScore
            \<longrightarrow> sorted (map score_of (elems (newList (AddScore grow scores newScore)))))
       \<and> (length (elems scores) = MaxHighScores
              \<and> (\<forall>s \<in> set (elems scores). score_of s \<le> score_of newScore)
            \<longrightarrow> AddScore grow scores newScore = (scores, False, scores))"
proof (cases "shouldAdd (elems scores) newScore")
  case True
  from assms have le11: "length (elems scores) \<le> 11" by (simp add: MaxHighScores_def)
  have "length (elems (newList (AddScore grow scores newScore))) \<le> MaxHighScores"
    by (simp add: AddScore_inserted_elems [OF True le11])
  moreover have "sorted (map score_of (elems (newList (AddScore grow scores newScore))))"
    by (simp only: AddScore_inserted_elems [OF True le11] sorted_take_sort_key)
  moreover have "\<not> (length (elems scores) = MaxHighScores
              \<and> (\<forall>s \<in> set (elems scores). score_of s \<le> score_of newScore))"
    using True not_shouldAdd_worse by blast
  ultimately show ?thesis by blast
next
  case False
  then have "AddScore grow scores newScore = (scores, False, scores)"
    by (rule AddScore_rejected)
  with assms False show ?thesis by (simp add: newList_def)
qed

theorem AddScore_sorted_capped_witness:
  "length (elems full_board) \<le> MaxHighScores
   \<and> length (elems (newList (AddScore 0 full_board \<lparr>Name = ''q'', Score = 10\<rparr>))) \<le> MaxHighScores
   \<and> sorted (map score_of (elems full_board))
   \<and> sorted (map score_of (elems (newList (AddScore 0 full_board \<lparr>Name = ''q'', Score = 10\<rparr>))))
   \<and> length (elems full_board) = MaxHighScores
   \<and> AddScore 0 full_board \<lparr>Name = ''q'', Score = 10\<rparr> = (full_board, False, full_board)"
  using AddScore_sorted_capped [of full_board 0 "\<lparr>Name = ''q'', Score = 10\<rparr>"]
  by (simp add: full_board_def MaxHighScores_def score_of_def newList_def)

text \<open>
  Claim C2 as stated, without the input list being sorted, fails: a full list in
  descending order and a candidate worse than all of it come back as they went in.
\<close>

theorem AddScore_unsorted_counterexample:
  "length (elems unsorted_board) \<le> 10
   \<and> \<not> sorted (map score_of (elems (newList (AddScore 0 unsorted_board \<lparr>Name = ''q'', Score = 100\<rparr>))))"
  by (simp add: AddScore_def shouldAdd_def sort_Sort_sort_key unsorted_board_def MaxHighScores_def
      newList_def Less_score_of score_of_def)

lemma filter_same_score_sorted:
  "filter (\<lambda>s. Score s = Score (c::Score)) (sort_key score_of xs) = filter (\<lambda>s. Score s = Score c) xs"
proof -
  have "(\<lambda>s. Score s = Score c) = (\<lambda>s. score_of s = score_of c)"
    by (simp add: Score_eq_score_of)
  then show ?thesis by (simp add: sort_key_stable)
qed

lemma filter_same_score_kept:
  assumes len: "length xs \<le> MaxHighScores" and add: "shouldAdd xs c"
  shows "filter (\<lambda>s. Score s = Score c) (take MaxHighScores (sort_key score_of (xs @ [c])))
           = filter (\<lambda>s. Score s = Score c) xs @ [c]"
proof (cases "length xs < MaxHighScores")
  case True
  then have "length (sort_key score_of (xs @ [c])) \<le> MaxHighScores" by simp
  then have "take MaxHighScores (sort_key score_of (xs @ [c])) = sort_key score_of (xs @ [c])"
    by simp
  then show ?thesis by (simp add: filter_same_score_sorted)
next
  case False
  with len have full: "length xs = MaxHighScores" by simp
  then have le12: "length xs \<le> 12" by (simp add: MaxHighScores_def)
  from full add have lt: "score_of c < Max (score_of ` set xs)"
    by (simp add: shouldAdd_iff [OF le12])
  let ?ys = "sort_key score_of (xs @ [c])"
  have lys: "length ?ys = Suc MaxHighScores" using full by simp
  have ne: "?ys \<noteq> []"
    using lys by (metis length_0_conv nat.simps(3))
  have tk: "take MaxHighScores ?ys = butlast ?ys"
    using lys by (simp add: butlast_conv_take)
  have "last (map score_of ?ys) = Max (set (map score_of ?ys))"
    using ne by (intro last_sorted_Max) auto
  also have "\<dots> = Max (insert (score_of c) (score_of ` set xs))" by simp
  also have "\<dots> = Max (score_of ` set xs)"
  proof -
    have "xs \<noteq> []" using full by (auto simp: MaxHighScores_def)
    then have "Max (insert (score_of c) (score_of ` set xs)) = max (score_of c) (Max (score_of ` set xs))"
      by (intro Max_insert) auto
    with lt show ?thesis by simp
  qed
  finally have "score_of (last ?ys) = Max (score_of ` set xs)"
    using ne by (simp add: last_map)
  with lt have "Score (last ?ys) \<noteq> Score c" by (auto simp: Score_eq_score_of)
  moreover have "filter (\<lambda>s. Score s = Score c) ?ys
       = filter (\<lambda>s. Score s = Score c) (butlast ?ys) @ filter (\<lambda>s. Score s = Score c) [last ?ys]"
    using ne by (metis append_butlast_last_id filter_append)
  ultimately have "filter (\<lambda>s. Score s = Score c) (butlast ?ys) = filter (\<lambda>s. Score s = Score c) ?ys"
    by simp
  with tk show ?thesis by (simp add: filter_same_score_sorted)
qed

text \<open>
  Claim C6, as amended. When \<open>AddScore\<close> inserts a candidate into a list of at most 11
  entries, which every list within the capacity of 10 is, the result is: append the
  candidate, sort ascending by score with ties kept in insertion order (\<open>sort_key\<close> is the
  stable sort), truncate to capacity 10. The entries of the output with the candidate's
  score are the input's entries with that score, in their input order, followed by the
  candidate: a prefix of that sequence in general, all of it for a list within capacity.
  With the candidate such a list has at most 12 elements, on which \<open>sort.Sort\<close> is an
  insertion sort.
\<close>

theorem AddScore_insert_stable:
  assumes "length (elems scores) \<le> 11" and "shouldAdd (elems scores) newScore"
  shows "elems (newList (AddScore grow scores newScore))
           = take MaxHighScores (sort_key score_of (elems scores @ [newScore]))
       \<and> prefix (filter (\<lambda>s. Score s = Score newScore) (elems (newList (AddScore grow scores newScore))))
                 (filter (\<lambda>s. Score s = Score newScore) (elems scores) @ [newScore])
       \<and> (length (elems scores) \<le> MaxHighScores \<longrightarrow>
            filter (\<lambda>s. Score s = Score newScore) (elems (newList (AddScore grow scores newScore)))
              = filter (\<lambda>s. Score s = Score newScore) (elems scores) @ [newScore])"
proof -
  let ?P = "\<lambda>s. Score s = Score newScore"
  let ?ys = "sort_key score_of (elems scores @ [newScore])"
  have out: "elems (newList (AddScore grow scores newScore)) = take MaxHighScores ?ys"
    using assms(2) assms(1) by (rule AddScore_inserted_elems)
  have "prefix (filter ?P (take MaxHighScores ?ys)) (filter ?P ?ys)"
    by (intro filter_mono_prefix take_is_prefix)
  then have pre: "prefix (filter ?P (take MaxHighScores ?ys)) (filter ?P (elems scores) @ [newScore])"
    by (simp add: filter_same_score_sorted)
  have "length (elems scores) \<le> MaxHighScores \<longrightarrow>
          filter ?P (take MaxHighScores ?ys) = filter ?P (elems scores) @ [newScore]"
    using assms(2) by (simp add: filter_same_score_kept)
  with out pre show ?thesis by simp
qed

theorem AddScore_insert_stable_witness:
  "length (elems tie_board) \<le> 11 \<and> shouldAdd (elems tie_board) \<lparr>Name = ''d'', Score = 3\<rparr>
   \<and> elems (newList (AddScore 0 tie_board \<lparr>Name = ''d'', Score = 3\<rparr>))
       = [\<lparr>Name = ''a'', Score = 3\<rparr>, \<lparr>Name = ''c'', Score = 3\<rparr>, \<lparr>Name = ''d'', Score = 3\<rparr>,
          \<lparr>Name = ''b'', Score = 7\<rparr>]"
proof -
  have h1: "length (elems tie_board) \<le> 11"
    by (simp add: tie_board_def)
  have h2: "shouldAdd (elems tie_board) \<lparr>Name = ''d'', Score = 3\<rparr>"
    by (simp add: tie_board_def shouldAdd_def MaxHighScores_def)
  show ?thesis
    using h1 h2 AddScore_insert_stable [OF h1 h2, of 0]
    by (simp add: tie_board_def MaxHighScores_def score_of_def)
qed

text \<open>
  Claim C6 as stated fails on a longer list: \<open>sort.Sort\<close> is not a stable sort. On twelve
  entries and a candidate \<open>n\<close> of score 4 it runs the quicksort proper, which leaves the
  candidate in front of the existing entries \<open>c\<close> and \<open>k\<close> of score 4, and \<open>g\<close> in front of \<open>c\<close>.
  The second list is what the claim describes.
\<close>

theorem AddScore_unstable_counterexample:
  "shouldAdd (elems twelve_board) \<lparr>Name = ''n'', Score = 4\<rparr>
   \<and> map Name (elems (newList (AddScore 0 twelve_board \<lparr>Name = ''n'', Score = 4\<rparr>)))
       = [''i'', ''e'', ''g'', ''n'', ''c'', ''k'', ''d'', ''h'', ''f'', ''j'']
   \<and> map Name (take MaxHighScores
                   (sort_key score_of (elems twelve_board @ [\<lparr>Name = ''n'', Score = 4\<rparr>])))
       = [''i'', ''e'', ''c'', ''g'', ''k'', ''n'', ''d'', ''f'', ''h'', ''j'']"
  by code_simp

text \<open>
  For every score list of length at most 10 and every candidate, the boolean \<open>AddScore\<close>
  returns is true exactly when the list has fewer than 10 entries or the candidate's score
  is strictly less than the maximum score in the list. It depends on the scores only: a
  call on a list with the same scores (whatever the names, the spare capacity and the
  runtime's growth) with a candidate of the same score returns the same boolean.
\<close>

lemma AddScore_retained_scores_only:
  assumes "length (elems scores) \<le> MaxHighScores"
  shows "(retained (AddScore grow scores newScore) \<longleftrightarrow>
            (length (elems scores) < MaxHighScores
             \<or> score_of newScore < Max (score_of ` set (elems scores))))
       \<and> (\<forall>grow' scores' newScore'.
              map Score (elems scores') = map Score (elems scores) \<and> Score newScore' = Score newScore
              \<longrightarrow> retained (AddScore grow' scores' newScore') = retained (AddScore grow scores newScore))"
proof -
  have iff: "retained (AddScore g s c) \<longleftrightarrow> shouldAdd (elems s) c"
    if "length (elems s) \<le> MaxHighScores" for g s c
  proof (cases "shouldAdd (elems s) c")
    case True
    moreover from that have "length (elems s) \<le> 11" by (simp add: MaxHighScores_def)
    ultimately show ?thesis
      using candidate_survives [OF that True] by (simp add: AddScore_inserted_retained)
  next
    case False
    then show ?thesis by (simp add: AddScore_rejected retained_def)
  qed
  have same: "shouldAdd (elems s') c' = shouldAdd (elems scores) newScore"
    if m: "map Score (elems s') = map Score (elems scores)" and c: "Score c' = Score newScore" for s' c'
  proof -
    have "length (elems s') = length (elems scores)"
      using m by (rule map_eq_imp_length_eq)
    moreover have "score_of ` set (elems s') = score_of ` set (elems scores)"
    proof -
      have img: "score_of ` set xs = sint ` (Score ` set xs)" for xs :: "Score list"
        by (simp add: image_image score_of_def)
      have "Score ` set (elems s') = Score ` set (elems scores)"
        using m by (metis list.set_map)
      then show ?thesis by (simp only: img)
    qed
    moreover have "score_of c' = score_of newScore"
      using c by (simp add: score_of_def)
    moreover from assms have "length (elems scores) \<le> 12" by (simp add: MaxHighScores_def)
    ultimately show ?thesis by (simp add: shouldAdd_iff)
  qed
  have "retained (AddScore g' s' c') = retained (AddScore grow scores newScore)"
    if m: "map Score (elems s') = map Score (elems scores)" and c: "Score c' = Score newScore" for g' s' c'
  proof -
    have "length (elems s') = length (elems scores)"
      using m by (rule map_eq_imp_length_eq)
    with assms have "length (elems s') \<le> MaxHighScores" by simp
    then show ?thesis
      using iff [of s' g' c'] iff [OF assms, of grow newScore] same [OF m c] by simp
  qed
  moreover from assms have le12: "length (elems scores) \<le> 12" by (simp add: MaxHighScores_def)
  ultimately show ?thesis
    using iff [OF assms, of grow newScore] by (auto simp: shouldAdd_iff [OF le12])
qed

lemma AddScore_retained_scores_only_example:
  "length (elems full_board) \<le> MaxHighScores
   \<and> retained (AddScore 0 full_board \<lparr>Name = [], Score = 4\<rparr>)
   \<and> retained (AddScore 3 (full_board\<lparr>spare := [zeroScore]\<rparr>) \<lparr>Name = ''Ann'', Score = 4\<rparr>)"
proof -
  have h: "length (elems full_board) \<le> MaxHighScores"
    by (simp add: full_board_def MaxHighScores_def)
  have m: "Max (score_of ` set (elems full_board)) = 10"
    by (simp add: full_board_def score_of_def)
  from AddScore_retained_scores_only [OF h, of 0 "\<lparr>Name = [], Score = 4\<rparr>"]
  show ?thesis
    using h m by (simp add: score_of_def)
qed

section \<open>The entity: one bounce per update, monotone counters\<close>

lemma Pacman_Update_stopped:
  "IsStopped p \<Longrightarrow> Pacman_Update F now dt screenWidth screenHeight p = (p, 0)"
  by (simp add: Pacman_Update_def)

lemma Pacman_Update_horizontal:
  assumes "\<not> IsStopped p" "Direction p = DirHorizontal"
  shows "let moved = PosX p + Speed p * dt * float64 F (SubDirection p);
             p' = fst (Pacman_Update F now dt screenWidth screenHeight p);
             n = snd (Pacman_Update F now dt screenWidth screenHeight p)
         in if moved - Radius p < 0 \<and> SubDirection p = - 1
            then PosX p' = Radius p \<and> SubDirection p' = 1 \<and> Bounces p' = Bounces p + 1 \<and> n = 1
            else if moved + Radius p > screenWidth \<and> SubDirection p = 1
            then PosX p' = screenWidth - Radius p \<and> SubDirection p' = - 1
                 \<and> Bounces p' = Bounces p + 1 \<and> n = 1
            else PosX p' = moved \<and> SubDirection p' = SubDirection p
                 \<and> Bounces p' = Bounces p \<and> n = 0"
  using assms by (auto simp: Pacman_Update_def Let_def)

lemma Pacman_Update_vertical:
  assumes "\<not> IsStopped p" "Direction p \<noteq> DirHorizontal"
  shows "let moved = PosY p + Speed p * dt * float64 F (SubDirection p);
             p' = fst (Pacman_Update F now dt screenWidth screenHeight p);
             n = snd (Pacman_Update F now dt screenWidth screenHeight p)
         in if moved - Radius p < 0 \<and> SubDirection p = - 1
            then PosY p' = Radius p \<and> SubDirection p' = 1 \<and> Bounces p' = Bounces p + 1 \<and> n = 1
            else if moved + Radius p > screenHeight \<and> SubDirection p = 1
            then PosY p' = screenHeight - Radius p \<and> SubDirection p' = - 1
                 \<and> Bounces p' = Bounces p + 1 \<and> n = 1
            else PosY p' = moved \<and> SubDirection p' = SubDirection p
                 \<and> Bounces p' = Bounces p \<and> n = 0"
  using assms by (auto simp: Pacman_Update_def Let_def)

lemma Pacman_Update_Direction:
  "Direction (fst (Pacman_Update F now dt screenWidth screenHeight p)) = Direction p"
  by (simp add: Pacman_Update_def Let_def)

text \<open>
  Claim C1. A stopped entity is returned as it is, with 0. For an entity that is not
  stopped and a time step \<open>dt \<ge> 0\<close>, let \<open>moved\<close> be the position after the step along the
  entity's axis, as the code computes it: \<open>(Speed * dt) * float64(SubDirection)\<close> added to the
  position, in the arithmetic of \<open>float64\<close>, whatever it rounds to. If the circle passes the
  low boundary while the direction sign is -1, or the high boundary while it is 1 (the two
  comparisons of the code, on the computed values), the centre is set to the boundary
  plus or minus the radius, the sign is flipped, \<open>Bounces\<close> grows by one (Go's \<open>++\<close>) and
  the call returns 1; otherwise the centre is the moved position, sign and counter are
  unchanged and the call returns 0. The result is 0 or 1 whatever the overshoot.
\<close>

theorem Pacman_Update_single_bounce:
  "(IsStopped p \<longrightarrow> Pacman_Update F now dt screenWidth screenHeight p = (p, 0))
   \<and> (\<not> IsStopped p \<and> 0 \<le> dt \<longrightarrow>
        (let moved = axis_pos p + Speed p * dt * float64 F (SubDirection p);
             bound = axis_bound p screenWidth screenHeight;
             low = (moved - Radius p < 0 \<and> SubDirection p = - 1);
             high = (moved + Radius p > bound \<and> SubDirection p = 1);
             p' = fst (Pacman_Update F now dt screenWidth screenHeight p);
             n = snd (Pacman_Update F now dt screenWidth screenHeight p)
         in (low \<longrightarrow> axis_pos p' = Radius p \<and> SubDirection p' = 1
                   \<and> Bounces p' = Bounces p + 1 \<and> n = 1)
          \<and> (high \<longrightarrow> axis_pos p' = bound - Radius p \<and> SubDirection p' = - 1
                   \<and> Bounces p' = Bounces p + 1 \<and> n = 1)
          \<and> (\<not> low \<and> \<not> high \<longrightarrow> axis_pos p' = moved \<and> SubDirection p' = SubDirection p
                   \<and> Bounces p' = Bounces p \<and> n = 0)
          \<and> (n = 0 \<or> n = 1)))"
proof (intro conjI impI)
  assume "IsStopped p"
  then show "Pacman_Update F now dt screenWidth screenHeight p = (p, 0)"
    by (rule Pacman_Update_stopped)
next
  assume a: "\<not> IsStopped p \<and> 0 \<le> dt"
  show "let moved = axis_pos p + Speed p * dt * float64 F (SubDirection p);
             bound = axis_bound p screenWidth screenHeight;
             low = (moved - Radius p < 0 \<and> SubDirection p = - 1);
             high = (moved + Radius p > bound \<and> SubDirection p = 1);
             p' = fst (Pacman_Update F now dt screenWidth screenHeight p);
             n = snd (Pacman_Update F now dt screenWidth screenHeight p)
         in (low \<longrightarrow> axis_pos p' = Radius p \<and> SubDirection p' = 1
                   \<and> Bounces p' = Bounces p + 1 \<and> n = 1)
          \<and> (high \<longrightarrow> axis_pos p' = bound - Radius p \<and> SubDirection p' = - 1
                   \<and> Bounces p' = Bounces p + 1 \<and> n = 1)
          \<and> (\<not> low \<and> \<not> high \<longrightarrow> axis_pos p' = moved \<and> SubDirection p' = SubDirection p
                   \<and> Bounces p' = Bounces p \<and> n = 0)
          \<and> (n = 0 \<or> n = 1)"
  proof (cases "Direction p = DirHorizontal")
    case True
    with a Pacman_Update_horizontal [of p dt F now screenWidth screenHeight]
    show ?thesis
      by (simp add: Let_def axis_pos_def axis_bound_def Pacman_Update_Direction split: if_splits)
  next
    case False
    with a Pacman_Update_vertical [of p dt F now screenWidth screenHeight]
    show ?thesis
      by (simp add: Let_def axis_pos_def axis_bound_def Pacman_Update_Direction split: if_splits)
  qed
qed

theorem Pacman_Update_single_bounce_witness:
  "\<not> IsStopped runner \<and> (0::real) \<le> 1
   \<and> axis_pos runner + Speed runner * 1 * float64 exact (SubDirection runner) + Radius runner = 695
   \<and> axis_pos (fst (Pacman_Update exact 0 1 640 480 runner)) = 630
   \<and> SubDirection (fst (Pacman_Update exact 0 1 640 480 runner)) = - 1
   \<and> Bounces (fst (Pacman_Update exact 0 1 640 480 runner)) = 1
   \<and> snd (Pacman_Update exact 0 1 640 480 runner) = 1
   \<and> Pacman_Update exact 0 1 640 480 (runner\<lparr>IsStopped := True\<rparr>) = (runner\<lparr>IsStopped := True\<rparr>, 0)"
  using Pacman_Update_single_bounce [of runner exact 0 1 640 480]
        Pacman_Update_single_bounce [of "runner\<lparr>IsStopped := True\<rparr>" exact 0 1 640 480]
  by (simp add: runner_def axis_pos_def axis_bound_def exact_def DirHorizontal_def Let_def)

lemma sint_succ: "sint (b::go_int) < 2 ^ 63 - 1 \<Longrightarrow> sint (b + 1) = sint b + 1"
proof -
  assume lt: "sint b < 2 ^ 63 - 1"
  have ge: "- (2 ^ 63) \<le> sint b" using sint_ge [of b] by simp
  have "sint (b + 1) = signed_take_bit 63 (sint b + 1)"
    by (simp add: sint_word_ariths)
  also have "\<dots> = sint b + 1"
    using lt ge by (intro signed_take_bit_int_eq_self) auto
  finally show ?thesis .
qed

lemma Pacman_Update_Bounces:
  "Bounces (fst (Pacman_Update F now dt screenWidth screenHeight p)) = Bounces p
   \<or> Bounces (fst (Pacman_Update F now dt screenWidth screenHeight p)) = Bounces p + 1"
  by (simp add: Pacman_Update_def Let_def)

lemma Pacman_Update_IsStopped:
  "IsStopped (fst (Pacman_Update F now dt screenWidth screenHeight p)) = IsStopped p"
  by (simp add: Pacman_Update_def Let_def)

lemma Bounce_IsStopped: "IsStopped (fst (Bounce F p)) = IsStopped p"
  by (simp add: Bounce_def Let_def)

lemma apply_call_Bounces:
  "Bounces (apply_call F c p) = Bounces p \<or> Bounces (apply_call F c p) = Bounces p + 1"
proof (cases c)
  case (CallUpdate now dt w h)
  then show ?thesis using Pacman_Update_Bounces [of F now dt w h p] by simp
next
  case CallBounce
  then show ?thesis by (simp add: Bounce_def Let_def)
next
  case CallStop
  then show ?thesis by (simp add: Stop_def)
qed

lemma apply_call_IsStopped: "IsStopped p \<Longrightarrow> IsStopped (apply_call F c p)"
  by (cases c) (simp_all add: Pacman_Update_IsStopped Bounce_IsStopped Stop_def)

lemma apply_call_sint_Bounces:
  assumes "sint (Bounces p) < 2 ^ 63 - 1"
  shows "sint (Bounces p) \<le> sint (Bounces (apply_call F c p))
       \<and> sint (Bounces (apply_call F c p)) \<le> sint (Bounces p) + 1"
  using apply_call_Bounces [of F c p] sint_succ [OF assms] by auto

lemma run_calls_sint_Bounces:
  "sint (Bounces p) + int (length cs) < 2 ^ 63 \<Longrightarrow>
     sint (Bounces p) \<le> sint (Bounces (run_calls F cs p))
     \<and> sint (Bounces (run_calls F cs p)) \<le> sint (Bounces p) + int (length cs)"
proof (induction cs arbitrary: p)
  case Nil
  show ?case by (simp add: run_calls_def)
next
  case (Cons c cs)
  from Cons.prems have lt: "sint (Bounces p) < 2 ^ 63 - 1" by simp
  note step = apply_call_sint_Bounces [OF lt, of F c]
  from step Cons.prems have "sint (Bounces (apply_call F c p)) + int (length cs) < 2 ^ 63"
    by simp
  from Cons.IH [OF this] step show ?case
    by (simp add: run_calls_def)
qed

lemma run_calls_IsStopped: "IsStopped p \<Longrightarrow> IsStopped (run_calls F cs p)"
  by (induction cs arbitrary: p) (simp_all add: run_calls_def apply_call_IsStopped)

lemma run_calls_append: "run_calls F (xs @ ys) p = run_calls F ys (run_calls F xs p)"
  by (simp add: run_calls_def)

lemma run_calls_take:
  assumes "i \<le> j"
  shows "run_calls F (take j cs) p = run_calls F (drop i (take j cs)) (run_calls F (take i cs) p)"
proof -
  have "take i (take j cs) = take i cs"
    using assms by (simp add: min.absorb1)
  then have "take i cs @ drop i (take j cs) = take j cs"
    by (metis append_take_drop_id)
  then have "run_calls F (take j cs) p = run_calls F (take i cs @ drop i (take j cs)) p"
    by (rule arg_cong [where f = "\<lambda>xs. run_calls F xs p", symmetric])
  also have "\<dots> = run_calls F (drop i (take j cs)) (run_calls F (take i cs) p)"
    by (rule run_calls_append)
  finally show ?thesis .
qed

text \<open>
  Claim C9, as amended. Along every sequence of \<open>Update\<close>, \<open>Bounce\<close> and \<open>Stop\<close> calls on an
  entity, \<open>IsStopped\<close> never goes back from true to false, whatever the counter holds; and
  \<open>Bounces\<close>, which grows by at most one per call, is non-decreasing between any two
  points of the sequence provided the counter at the start plus the number of calls stays
  below \<open>2^63\<close>, the range of Go's \<open>int\<close>.
\<close>

theorem calls_monotone:
  "(\<forall>i j. i \<le> j \<and> j \<le> length cs \<and> IsStopped (run_calls F (take i cs) p)
            \<longrightarrow> IsStopped (run_calls F (take j cs) p))
   \<and> (sint (Bounces p) + int (length cs) < 2 ^ 63 \<longrightarrow>
        (\<forall>i j. i \<le> j \<and> j \<le> length cs \<longrightarrow>
           sint (Bounces (run_calls F (take i cs) p)) \<le> sint (Bounces (run_calls F (take j cs) p))))"
proof (intro conjI allI impI)
  fix i j
  assume ij: "i \<le> j \<and> j \<le> length cs \<and> IsStopped (run_calls F (take i cs) p)"
  then have "run_calls F (take j cs) p = run_calls F (drop i (take j cs)) (run_calls F (take i cs) p)"
    by (intro run_calls_take) simp
  with ij show "IsStopped (run_calls F (take j cs) p)"
    by (simp add: run_calls_IsStopped)
next
  fix i j
  assume range: "sint (Bounces p) + int (length cs) < 2 ^ 63"
  assume ij: "i \<le> j \<and> j \<le> length cs"
  let ?q = "run_calls F (take i cs) p"
  let ?rest = "drop i (take j cs)"
  have split: "run_calls F (take j cs) p = run_calls F ?rest ?q"
    using ij by (intro run_calls_take) simp
  have "sint (Bounces p) + int (length (take i cs)) < 2 ^ 63"
    using range by simp
  from run_calls_sint_Bounces [OF this]
  have q: "sint (Bounces ?q) \<le> sint (Bounces p) + int i"
    using ij by simp
  have "length ?rest = j - i" using ij by simp
  with q ij range have "sint (Bounces ?q) + int (length ?rest) < 2 ^ 63"
    by simp
  from run_calls_sint_Bounces [OF this]
  have "sint (Bounces ?q) \<le> sint (Bounces (run_calls F ?rest ?q))" by simp
  then show "sint (Bounces ?q) \<le> sint (Bounces (run_calls F (take j cs) p))"
    by (simp only: split)
qed

text \<open>
  At a sequence of four calls: the counter after the first call is at most the counter at
  the end, and the entity, stopped by the third call, is stopped after the fourth. The
  flag stays set also where the counter is at the top of its range.
\<close>

theorem calls_monotone_witness:
  "sint (Bounces runner)
     + int (length [CallUpdate 0 1 640 480, CallBounce, CallStop, CallBounce :: real pacman_call]) < 2 ^ 63
   \<and> sint (Bounces (run_calls exact (take 1 [CallUpdate 0 1 640 480, CallBounce, CallStop, CallBounce]) runner))
       \<le> sint (Bounces (run_calls exact (take 4 [CallUpdate 0 1 640 480, CallBounce, CallStop, CallBounce]) runner))
   \<and> IsStopped (run_calls exact (take 3 [CallUpdate 0 1 640 480, CallBounce, CallStop, CallBounce]) runner)
   \<and> IsStopped (run_calls exact (take 4 [CallUpdate 0 1 640 480, CallBounce, CallStop, CallBounce]) runner)
   \<and> IsStopped (run_calls exact (take 1 [CallStop, CallBounce]) worn_out)
   \<and> IsStopped (run_calls exact (take 2 [CallStop, CallBounce]) worn_out)"
proof -
  let ?cs = "[CallUpdate 0 1 640 480, CallBounce, CallStop, CallBounce :: real pacman_call]"
  let ?ds = "[CallStop, CallBounce :: real pacman_call]"
  have h: "sint (Bounces runner) + int (length ?cs) < 2 ^ 63"
    by (simp add: runner_def)
  have s: "IsStopped (run_calls exact (take 3 ?cs) runner)"
    by (simp add: run_calls_def Pacman_Update_IsStopped Bounce_IsStopped Stop_def)
  have t: "IsStopped (run_calls exact (take 1 ?ds) worn_out)"
    by (simp add: run_calls_def Stop_def)
  note m = calls_monotone [of ?cs exact runner]
  note n = calls_monotone [of ?ds exact worn_out]
  from m have "sint (Bounces runner) + int (length ?cs) < 2 ^ 63 \<longrightarrow>
      (\<forall>i j. i \<le> j \<and> j \<le> length ?cs \<longrightarrow>
         sint (Bounces (run_calls exact (take i ?cs) runner)) \<le> sint (Bounces (run_calls exact (take j ?cs) runner)))"
    by (rule conjunct2)
  from this h have "\<forall>i j. i \<le> j \<and> j \<le> length ?cs \<longrightarrow>
         sint (Bounces (run_calls exact (take i ?cs) runner)) \<le> sint (Bounces (run_calls exact (take j ?cs) runner))"
    by (rule mp)
  from this [rule_format, of 1 4]
  have a: "sint (Bounces (run_calls exact (take 1 ?cs) runner)) \<le> sint (Bounces (run_calls exact (take 4 ?cs) runner))"
    by simp
  from m [THEN conjunct1, rule_format, of 3 4] s
  have c: "IsStopped (run_calls exact (take 4 ?cs) runner)" by simp
  from n [THEN conjunct1, rule_format, of 1 2] t
  have d: "IsStopped (run_calls exact (take 2 ?ds) worn_out)" by simp
  show ?thesis
    by (intro conjI) (rule h a s c t d)+
qed

text \<open>
  Claim C9 as stated fails at the top of the range of \<open>int\<close>: one more bounce takes the
  counter from \<open>2^63 - 1\<close> to \<open>-2^63\<close>.
\<close>

theorem Bounce_wraps_counterexample:
  "sint (Bounces (run_calls exact [CallBounce] worn_out)) < sint (Bounces worn_out)"
  by (simp add: run_calls_def Bounce_def worn_out_def runner_def)

section \<open>Name entry\<close>

lemma HandleTextInput_other_state:
  "CurrentState g \<noteq> StateEnteringHighScore \<Longrightarrow> HandleTextInput chars g = g"
  by (simp add: HandleTextInput_def)

lemma HandleTextInput_length:
  "length (playerNameInput (HandleTextInput chars g))
     \<le> max (length (playerNameInput g)) (14 + length chars)"
  by (simp add: HandleTextInput_def)

text \<open>
  Claim C7 at a failing input: in name entry with 14 characters in the buffer, two
  characters arriving in one call are both appended, and the buffer holds 16. The guard
  of \<open>HandleTextInput\<close> looks at the length before the append only.
\<close>

theorem HandleTextInput_exceeds_cap:
  "CurrentState entering14 = StateEnteringHighScore
   \<and> length (playerNameInput entering14) = 14
   \<and> length (playerNameInput (HandleTextInput [66, 67] entering14)) = 16"
  by (simp add: HandleTextInput_def entering14_def NewGame_def)

lemma HandleBackspace_entering:
  "CurrentState g = StateEnteringHighScore \<Longrightarrow> HandleBackspace g = g"
  by (simp add: HandleBackspace_def)

lemma HandleBackspace_other_state:
  "CurrentState g \<noteq> StateEnteringHighScore \<Longrightarrow>
     playerNameInput (HandleBackspace g) = butlast (playerNameInput g)"
  by (simp add: HandleBackspace_def butlast_conv_take)

text \<open>
  Claim C8 at a failing input: in name entry, \<open>HandleBackspace\<close> leaves a buffer of 14
  characters as it is; in another state it removes the last character. The condition of
  \<open>HandleBackspace\<close> has \<open>!=\<close> where its siblings return early.
\<close>

theorem HandleBackspace_inverted:
  "CurrentState entering14 = StateEnteringHighScore
   \<and> playerNameInput entering14 = replicate 14 65
   \<and> playerNameInput (HandleBackspace entering14) = replicate 14 65
   \<and> playerNameInput (HandleBackspace (entering14\<lparr>CurrentState := StateHallOfFame\<rparr>))
       = replicate 13 65"
  by (simp add: HandleBackspace_def entering14_def NewGame_def)

lemma EncodeRune_not_Nil: "EncodeRune r \<noteq> []"
  by (simp add: EncodeRune_def Let_def)

lemma string_of_runes_Nil_iff: "string_of_runes rs = [] \<longleftrightarrow> rs = []"
  by (cases rs) (simp_all add: string_of_runes_def EncodeRune_not_Nil)

text \<open>
  Claim C4, as amended. In name entry, \<open>HandleEnter\<close> takes the placeholder name when the
  buffer is empty and the buffer's text otherwise, runs \<open>AddScore\<close> on the name and
  \<open>TotalBounces\<close>, stores the list it returns, moves to the hall of fame and clears the
  buffer, whatever the boolean of \<open>AddScore\<close> and whatever the writer answers. It calls the
  writer, once, on the stored list and the high-score path, exactly when the boolean is
  true. In any other state it changes nothing and calls nothing.
\<close>

theorem HandleEnter_transition:
  "(CurrentState g = StateEnteringHighScore \<longrightarrow>
      (let name = (if playerNameInput g = [] then ''Anonymous''
                   else string_of_runes (playerNameInput g));
           r = AddScore grow (HighScores g) \<lparr>Name = name, Score = TotalBounces g\<rparr>
       in fst (HandleEnter grow saveFunc g)
            = g\<lparr>HighScores := newList r, CurrentState := StateHallOfFame, playerNameInput := []\<rparr>
          \<and> snd (HandleEnter grow saveFunc g)
            = (if retained r
               then [(elems (newList r), highScorePath g,
                      saveFunc (elems (newList r)) (highScorePath g))]
               else [])))
   \<and> (CurrentState g \<noteq> StateEnteringHighScore \<longrightarrow> HandleEnter grow saveFunc g = (g, []))"
  by (simp add: HandleEnter_def Let_def string_of_runes_Nil_iff)

theorem HandleEnter_transition_witness:
  "CurrentState (entering14\<lparr>playerNameInput := []\<rparr>) = StateEnteringHighScore
   \<and> fst (HandleEnter 0 failing_writer (entering14\<lparr>playerNameInput := []\<rparr>))
       = entering14\<lparr>HighScores := \<lparr>elems = [\<lparr>Name = ''Anonymous'', Score = 50\<rparr>], spare = []\<rparr>,
                   CurrentState := StateHallOfFame, playerNameInput := []\<rparr>
   \<and> snd (HandleEnter 0 failing_writer (entering14\<lparr>playerNameInput := []\<rparr>))
       = [([\<lparr>Name = ''Anonymous'', Score = 50\<rparr>], ''assets/highscores/highscores_0.gob'',
           Some ''disk full'')]
   \<and> CurrentState (entering14\<lparr>CurrentState := StateGameOver\<rparr>) \<noteq> StateEnteringHighScore
   \<and> HandleEnter 0 failing_writer (entering14\<lparr>CurrentState := StateGameOver\<rparr>)
       = (entering14\<lparr>CurrentState := StateGameOver\<rparr>, [])"
proof -
  have r: "AddScore 0 empty_scores \<lparr>Name = ''Anonymous'', Score = 50\<rparr>
             = (\<lparr>elems = [\<lparr>Name = ''Anonymous'', Score = 50\<rparr>], spare = []\<rparr>, True, empty_scores)"
    by (simp add: AddScore_def shouldAdd_def MaxHighScores_def empty_scores_def append_slice_def
        sort_Sort_def)
  show ?thesis
    using HandleEnter_transition [of "entering14\<lparr>playerNameInput := []\<rparr>" 0 failing_writer]
          HandleEnter_transition [of "entering14\<lparr>CurrentState := StateGameOver\<rparr>" 0 failing_writer]
    by (simp add: entering14_def NewGame_def r newList_def retained_def failing_writer_def)
qed

text \<open>
  Claim C4 as stated, with the list persisted on every call, fails: when the candidate is
  not retained, \<open>HandleEnter\<close> does not call the writer.
\<close>

theorem HandleEnter_no_write_counterexample:
  "CurrentState shut_out = StateEnteringHighScore
   \<and> snd (HandleEnter 0 failing_writer shut_out) = []
   \<and> CurrentState (fst (HandleEnter 0 failing_writer shut_out)) = StateHallOfFame"
  by (simp add: HandleEnter_def shut_out_def entering14_def NewGame_def Let_def string_of_runes_Nil_iff
      AddScore_def shouldAdd_def sort_Sort_sort_key full_board_def MaxHighScores_def retained_def
      Less_score_of score_of_def)

section \<open>Loading\<close>

text \<open>
  Claim C5. When the injected loader fails, \<open>RequestLoadLevel\<close> and \<open>RequestLoadSavedGame\<close>
  return an error that wraps the loader's and leave every field of the game as it was.
  When the loader succeeds and the high scores cannot be loaded (the loading function
  is not set, or it fails), the request returns no error, the game is playing and its
  high-score list is empty.
\<close>

theorem load_failure_keeps_game:
  "(loadFunc path = Inl err \<longrightarrow>
      RequestLoadLevel now loadHighScoresFunc level path loadFunc g
        = (Some (''failed to load level config '' @ [CHR 0x27] @ path @ [CHR 0x27] @ '': '' @ err), g)
      \<and> RequestLoadSavedGame now loadHighScoresFunc path loadFunc g
        = (Some (''failed to load saved game '' @ [CHR 0x27] @ path @ [CHR 0x27] @ '': '' @ err), g))
   \<and> (loadFunc path = Inr loaded
        \<and> (case loadHighScoresFunc of None \<Rightarrow> True
            | Some f \<Rightarrow> isl (f (''assets/highscores/highscores_'' @ Itoa (Level loaded) @ ''.gob''))) \<longrightarrow>
      fst (RequestLoadLevel now loadHighScoresFunc level path loadFunc g) = None
      \<and> HighScores (snd (RequestLoadLevel now loadHighScoresFunc level path loadFunc g)) = empty_scores
      \<and> CurrentState (snd (RequestLoadLevel now loadHighScoresFunc level path loadFunc g)) = StatePlaying
      \<and> fst (RequestLoadSavedGame now loadHighScoresFunc path loadFunc g) = None
      \<and> HighScores (snd (RequestLoadSavedGame now loadHighScoresFunc path loadFunc g)) = empty_scores
      \<and> CurrentState (snd (RequestLoadSavedGame now loadHighScoresFunc path loadFunc g)) = StatePlaying)"
  by (auto simp: RequestLoadLevel_def RequestLoadSavedGame_def install_high_scores_def Let_def
      isl_def split: option.splits sum.splits)

theorem load_failure_keeps_game_witness:
  "failing_loader ''assets/levels/level_7.txt'' = Inl ''no such file''
   \<and> snd (RequestLoadLevel 5 None 7 ''assets/levels/level_7.txt'' failing_loader entering14) = entering14
   \<and> snd (RequestLoadSavedGame 5 None ''assets/levels/level_7.txt'' failing_loader entering14) = entering14
   \<and> fst (RequestLoadLevel 5 None 7 ''assets/levels/level_7.txt'' failing_loader entering14) \<noteq> None
   \<and> HighScores (snd (RequestLoadLevel 5 (Some failing_scores_loader) 0 ''assets/levels/level_0.txt''
         level0_loader shut_out)) = empty_scores
   \<and> fst (RequestLoadLevel 5 (Some failing_scores_loader) 0 ''assets/levels/level_0.txt''
         level0_loader shut_out) = None"
  using load_failure_keeps_game [where loadFunc = failing_loader
          and path = "''assets/levels/level_7.txt''" and err = "''no such file''"
          and now = 5 and loadHighScoresFunc = None and level = 7 and g = entering14]
        load_failure_keeps_game [where loadFunc = level0_loader
          and path = "''assets/levels/level_0.txt''"
          and loaded = "(NewGame 0 0)\<lparr>Level := 0, Pacmans := [runner]\<rparr>"
          and loadHighScoresFunc = "Some failing_scores_loader"
          and now = 5 and level = 0 and g = shut_out]
  by (simp add: failing_loader_def level0_loader_def failing_scores_loader_def)

section \<open>The tick\<close>

lemma map_list_update_same:
  "f y = f (xs ! i) \<Longrightarrow> map f (xs[i := y]) = map f xs"
  by (metis list_update_beyond list_update_id map_update not_le_imp_less nth_map length_map)

lemma move_all_IsStopped:
  "move_all F now dt w h ps a n = (ps', a', n') \<Longrightarrow>
     map IsStopped ps' = map IsStopped ps \<and> a' = (a \<and> list_all IsStopped ps)"
proof (induction ps arbitrary: a n ps' a' n')
  case Nil
  then show ?case by simp
next
  case (Cons p ps)
  obtain q b where u: "Pacman_Update F now dt w h p = (q, b)" by (cases "Pacman_Update F now dt w h p")
  then have q: "IsStopped q = IsStopped p"
    using Pacman_Update_IsStopped [of F now dt w h p] by simp
  obtain qs c m where r: "move_all F now dt w h ps (if \<not> IsStopped q then False else a) (n + b) = (qs, c, m)"
    by (cases "move_all F now dt w h ps (if \<not> IsStopped q then False else a) (n + b)") auto
  from Cons.prems u r have res: "ps' = q # qs" "a' = c" "n' = m"
    by (simp_all add: GetData_def)
  from Cons.IH [OF r] q res show ?case by auto
qed

lemma move_all_stopped:
  "list_all IsStopped ps \<Longrightarrow> move_all F now dt w h ps a n = (ps, a, n)"
  by (induction ps arbitrary: a n) (simp_all add: Pacman_Update_stopped GetData_def)

lemma collide_inner_unfold:
  "collide_inner F ps numPacmans i x y r j n =
     (if j < numPacmans then
        (if IsStopped (ps ! j) then collide_inner F ps numPacmans i x y r (j + 1) n
         else if (x - PosX (ps ! j)) * (x - PosX (ps ! j)) + (y - PosY (ps ! j)) * (y - PosY (ps ! j)) > 0
                 \<and> (x - PosX (ps ! j)) * (x - PosX (ps ! j)) + (y - PosY (ps ! j)) * (y - PosY (ps ! j))
                     < (r + Radius (ps ! j)) * (r + Radius (ps ! j))
         then collide_inner F
                (ps[i := fst (Bounce F (ps ! i)), j := fst (Bounce F (ps[i := fst (Bounce F (ps ! i))] ! j))])
                numPacmans i x y r (j + 1)
                (if snd (Bounce F (ps[i := fst (Bounce F (ps ! i))] ! j))
                 then (if snd (Bounce F (ps ! i)) then n + 1 else n) + 1
                 else (if snd (Bounce F (ps ! i)) then n + 1 else n))
         else collide_inner F ps numPacmans i x y r (j + 1) n)
      else (ps, n))"
  by (subst collide_inner.simps)
     (simp add: Let_def GetStateForCollisionCheck_def split: prod.splits)

lemma collide_inner_IsStopped:
  "map IsStopped (fst (collide_inner F ps numPacmans i x y r j n)) = map IsStopped ps"
proof (induction "numPacmans - j" arbitrary: ps j n)
  case 0
  then show ?case by (subst collide_inner_unfold) simp
next
  case (Suc k)
  then have k: "k = numPacmans - Suc j" and lt: "j < numPacmans" by simp_all
  let ?p1 = "fst (Bounce F (ps ! i))"
  let ?ps1 = "ps[i := ?p1]"
  let ?p2 = "fst (Bounce F (?ps1 ! j))"
  have "map IsStopped (?ps1[j := ?p2]) = map IsStopped ?ps1"
    by (rule map_list_update_same) (rule Bounce_IsStopped)
  also have "\<dots> = map IsStopped ps"
    by (rule map_list_update_same) (rule Bounce_IsStopped)
  finally have upd: "map IsStopped (?ps1[j := ?p2]) = map IsStopped ps" .
  show ?case
    by (subst collide_inner_unfold) (simp add: lt Suc.hyps(1) [OF k] upd)
qed

lemma collide_inner_stopped:
  "IsStopped (ps ! i) \<Longrightarrow> list_all IsStopped (drop j ps) \<Longrightarrow> numPacmans = length ps \<Longrightarrow>
     collide_inner F ps numPacmans i x y r j n = (ps, n)"
proof (induction "numPacmans - j" arbitrary: j)
  case 0
  then show ?case by (subst collide_inner_unfold) simp
next
  case (Suc k)
  then have k: "k = numPacmans - Suc j" and lt: "j < length ps" by simp_all
  from Suc.prems(2) lt have sj: "IsStopped (ps ! j)" and rest: "list_all IsStopped (drop (Suc j) ps)"
    by (simp_all add: Cons_nth_drop_Suc [symmetric])
  from Suc.hyps(1) [OF k Suc.prems(1) rest Suc.prems(3)] sj lt Suc.prems(3)
  show ?case by (subst collide_inner_unfold) simp
qed

lemma collide_outer_unfold:
  "collide_outer F ps numPacmans i n =
     (if i < numPacmans then
        (if IsStopped (ps ! i) then collide_outer F ps numPacmans (i + 1) n
         else collide_outer F
                (fst (collide_inner F ps numPacmans i (PosX (ps ! i)) (PosY (ps ! i)) (Radius (ps ! i)) (i + 1) n))
                numPacmans (i + 1)
                (snd (collide_inner F ps numPacmans i (PosX (ps ! i)) (PosY (ps ! i)) (Radius (ps ! i)) (i + 1) n)))
      else (ps, n))"
  by (subst collide_outer.simps)
     (simp add: Let_def GetStateForCollisionCheck_def split: prod.splits)

lemma collide_outer_IsStopped:
  "map IsStopped (fst (collide_outer F ps numPacmans i n)) = map IsStopped ps"
proof (induction "numPacmans - i" arbitrary: ps i n)
  case 0
  then show ?case by (subst collide_outer_unfold) simp
next
  case (Suc k)
  then have k: "k = numPacmans - Suc i" and lt: "i < numPacmans" by simp_all
  show ?case
    by (subst collide_outer_unfold) (simp add: lt Suc.hyps(1) [OF k] collide_inner_IsStopped)
qed

lemma collide_outer_stopped:
  "list_all IsStopped ps \<Longrightarrow> numPacmans = length ps \<Longrightarrow> collide_outer F ps numPacmans i n = (ps, n)"
proof (induction "numPacmans - i" arbitrary: i)
  case 0
  then show ?case by (subst collide_outer_unfold) simp
next
  case (Suc k)
  then have k: "k = numPacmans - Suc i" and lt: "i < length ps" by simp_all
  from Suc.prems(1) lt have "IsStopped (ps ! i)" by (simp add: list_all_length)
  with Suc.hyps(1) [OF k Suc.prems] lt Suc.prems(2)
  show ?case by (subst collide_outer_unfold) simp
qed

lemma Game_Update_IsStopped:
  "map IsStopped (Pacmans (Game_Update F now grow g)) = map IsStopped (Pacmans g)"
proof -
  let ?g1 = "g\<lparr>deltaTime := Seconds F (now - lastUpdateTime g), lastUpdateTime := now\<rparr>"
  obtain ps1 a n1 where m: "move_all F now (deltaTime ?g1) (ScreenWidth ?g1) (ScreenHeight ?g1)
      (Pacmans ?g1) True 0 = (ps1, a, n1)"
    by (metis prod_cases3)
  obtain ps2 n2 where c: "collide_outer F ps1 (length ps1) 0 n1 = (ps2, n2)"
    by (metis surj_pair)
  from move_all_IsStopped [OF m] have "map IsStopped ps1 = map IsStopped (Pacmans g)" by simp
  moreover from collide_outer_IsStopped [of F ps1 "length ps1" 0 n1] c
  have "map IsStopped ps2 = map IsStopped ps1" by simp
  ultimately have "map IsStopped ps2 = map IsStopped (Pacmans g)" by simp
  with m c show ?thesis
    by (simp add: Game_Update_def Let_def)
qed

lemma Game_Update_stopped:
  assumes "CurrentState g = StatePlaying" and "\<not> Level g <s 0" and "list_all IsStopped (Pacmans g)"
  shows "Game_Update F now grow g =
     (let r = AddScore grow (HighScores g) \<lparr>Name = [], Score = TotalBounces g\<rparr>;
          g4 = g\<lparr>deltaTime := Seconds F (now - lastUpdateTime g),
                 lastUpdateTime := now, CurrentState := StateGameOver,
                 HighScores := seen_by_caller r, isNewHighScore := retained r\<rparr>
      in if retained r then g4\<lparr>CurrentState := StateEnteringHighScore, playerNameInput := []\<rparr>
         else g4)"
  using assms
  by (simp add: Game_Update_def Let_def move_all_stopped collide_outer_stopped)

lemma seen_by_caller_no_spare:
  "spare scores = [] \<Longrightarrow> seen_by_caller (AddScore grow scores newScore) = scores"
  by (simp add: AddScore_def seen_by_caller_def Let_def)

text \<open>
  Claim C3, as amended. When a tick of \<open>Update\<close> in the playing state, with a level loaded
  (\<open>Level \<ge> 0\<close>), ends with every entity stopped, the new state is decided by the boolean
  of \<open>AddScore\<close> on the stored high scores and a candidate with the empty name and the
  score \<open>TotalBounces\<close>: name entry with the buffer cleared when it is true, game over
  otherwise. The stored list is as it was when its slice has no spare capacity.
\<close>

theorem Game_Update_game_over:
  assumes "CurrentState g = StatePlaying" and "\<not> Level g <s 0"
    and "\<forall>p \<in> set (Pacmans (Game_Update F now grow g)). IsStopped p"
  shows "let g' = Game_Update F now grow g;
             r = AddScore grow (HighScores g) \<lparr>Name = [], Score = TotalBounces g'\<rparr>
         in (retained r \<longrightarrow> CurrentState g' = StateEnteringHighScore \<and> playerNameInput g' = [])
          \<and> (\<not> retained r \<longrightarrow> CurrentState g' = StateGameOver)
          \<and> (spare (HighScores g) = [] \<longrightarrow> HighScores g' = HighScores g)"
proof -
  from assms(3) have "\<forall>b \<in> set (map IsStopped (Pacmans (Game_Update F now grow g))). b"
    by simp
  then have "\<forall>b \<in> set (map IsStopped (Pacmans g)). b"
    by (simp only: Game_Update_IsStopped)
  then have all: "list_all IsStopped (Pacmans g)"
    by (simp add: list_all_iff)
  note eq = Game_Update_stopped [OF assms(1) assms(2) all, of F now grow]
  show ?thesis
    by (simp add: eq Let_def seen_by_caller_no_spare)
qed

theorem Game_Update_game_over_witness:
  "CurrentState finished_level = StatePlaying \<and> \<not> Level finished_level <s 0
   \<and> list_all IsStopped (Pacmans (Game_Update exact 7 0 finished_level))
   \<and> CurrentState (Game_Update exact 7 0 finished_level) = StateEnteringHighScore
   \<and> playerNameInput (Game_Update exact 7 0 finished_level) = []
   \<and> HighScores (Game_Update exact 7 0 finished_level) = HighScores finished_level"
proof -
  have h1: "CurrentState finished_level = StatePlaying"
    by (simp add: finished_level_def)
  have h2: "\<not> Level finished_level <s 0"
    by (simp add: finished_level_def word_sless_alt)
  have "map IsStopped (Pacmans (Game_Update exact 7 0 finished_level)) = [True]"
    by (simp add: Game_Update_IsStopped finished_level_def caught_def)
  then have h3: "list_all IsStopped (Pacmans (Game_Update exact 7 0 finished_level))"
    by (metis (full_types) list_all_iff list.set_map imageE list.set(1,2) singletonD empty_iff insertE imageI)
  then have h3': "\<forall>p \<in> set (Pacmans (Game_Update exact 7 0 finished_level)). IsStopped p"
    by (simp add: list_all_iff)
  have tb: "TotalBounces (Game_Update exact 7 0 finished_level) = 3"
    using h3 by (simp add: Game_Update_stopped h1 h2 Game_Update_IsStopped finished_level_def caught_def
        Let_def)
  have r: "retained (AddScore 0 empty_scores \<lparr>Name = [], Score = 3\<rparr>)"
    by (simp add: AddScore_def shouldAdd_def MaxHighScores_def empty_scores_def append_slice_def
        sort_Sort_def retained_def)
  have hs: "HighScores finished_level = empty_scores" "spare empty_scores = []"
    by (simp_all add: finished_level_def NewGame_def empty_scores_def)
  from Game_Update_game_over [OF h1 h2 h3'] tb r hs
  have "CurrentState (Game_Update exact 7 0 finished_level) = StateEnteringHighScore
        \<and> playerNameInput (Game_Update exact 7 0 finished_level) = []
        \<and> HighScores (Game_Update exact 7 0 finished_level) = HighScores finished_level"
    by (simp add: Let_def)
  with h1 h2 h3 show ?thesis by simp
qed

text \<open>
  Claim C3 as stated, for every tick in the playing state, fails when no level is loaded:
  \<open>Update\<close> returns at its check of \<open>Level\<close>, and the game with all its entities stopped
  stays in the playing state.
\<close>

theorem Game_Update_no_level_counterexample:
  "CurrentState negative_level = StatePlaying
   \<and> list_all IsStopped (Pacmans (Game_Update exact 7 0 negative_level))
   \<and> CurrentState (Game_Update exact 7 0 negative_level) = StatePlaying"
  by (simp add: Game_Update_def negative_level_def finished_level_def caught_def Let_def
      word_sless_alt)

text \<open>
  With spare capacity in the stored slice, the check at game over writes into the stored
  list: \<open>append\<close> and \<open>sort.Sort\<close> inside \<open>AddScore\<close> work on the array the game holds.
\<close>

lemma Game_Update_shared_array:
  "elems (HighScores (Game_Update exact 7 0 (finished_level\<lparr>HighScores := roomy_board\<rparr>)))
     = [\<lparr>Name = [], Score = 3\<rparr>, \<lparr>Name = ''a'', Score = 5\<rparr>]"
proof -
  have "list_all IsStopped (Pacmans (finished_level\<lparr>HighScores := roomy_board\<rparr>))"
    by (simp add: finished_level_def caught_def)
  then have "Game_Update exact 7 0 (finished_level\<lparr>HighScores := roomy_board\<rparr>)
      = (let g = finished_level\<lparr>HighScores := roomy_board\<rparr>;
             r = AddScore 0 (HighScores g) \<lparr>Name = [], Score = TotalBounces g\<rparr>;
             g4 = g\<lparr>deltaTime := Seconds exact (7 - lastUpdateTime g),
                 lastUpdateTime := 7, CurrentState := StateGameOver,
                 HighScores := seen_by_caller r, isNewHighScore := retained r\<rparr>
      in if retained r then g4\<lparr>CurrentState := StateEnteringHighScore, playerNameInput := []\<rparr>
         else g4)"
    by (subst Game_Update_stopped) (simp_all add: finished_level_def word_sless_alt Let_def)
  then show ?thesis
    by (simp add: Let_def finished_level_def roomy_board_def AddScore_def shouldAdd_def
        MaxHighScores_def append_slice_def sort_Sort_sort_key score_of_def seen_by_caller_def
        retained_def reslice_def zeroScore_def)
qed

section \<open>The scoreboard in the game\<close>

lemma retained_iff_shouldAdd:
  assumes "length (elems scores) \<le> MaxHighScores"
  shows "retained (AddScore grow scores newScore) \<longleftrightarrow> shouldAdd (elems scores) newScore"
proof (cases "shouldAdd (elems scores) newScore")
  case True
  moreover from assms have "length (elems scores) \<le> 11" by (simp add: MaxHighScores_def)
  ultimately show ?thesis
    using candidate_survives [OF assms True] by (simp add: AddScore_inserted_retained)
next
  case False
  then show ?thesis by (simp add: AddScore_rejected retained_def)
qed

text \<open>
  The invariant of the data model: every list built by \<open>AddScore\<close> calls from the empty
  list is sorted ascending by score and holds at most 10 entries.
\<close>

lemma AddScore_keeps_invariant:
  assumes "sorted (map score_of (elems scores))" and "length (elems scores) \<le> MaxHighScores"
  shows "sorted (map score_of (elems (newList (AddScore grow scores c))))
       \<and> length (elems (newList (AddScore grow scores c))) \<le> MaxHighScores"
proof (cases "shouldAdd (elems scores) c")
  case True
  moreover from assms(2) have "length (elems scores) \<le> 11" by (simp add: MaxHighScores_def)
  ultimately show ?thesis
    by (simp add: AddScore_inserted_elems sorted_take_sort_key)
next
  case False
  with assms show ?thesis by (simp add: AddScore_rejected newList_def)
qed

lemma AddScore_calls_invariant:
  assumes "sorted (map score_of (elems scores))" and "length (elems scores) \<le> MaxHighScores"
  shows "sorted (map score_of (elems (fold (\<lambda>c s. newList (AddScore grow s c)) cs scores)))
       \<and> length (elems (fold (\<lambda>c s. newList (AddScore grow s c)) cs scores)) \<le> MaxHighScores"
  using assms
proof (induction cs arbitrary: scores)
  case Nil
  then show ?case by simp
next
  case (Cons c cs)
  from AddScore_keeps_invariant [OF Cons.prems, of grow c]
  show ?case by (simp add: Cons.IH)
qed

lemma AddScore_calls_from_empty:
  "sorted (map score_of (elems (fold (\<lambda>c s. newList (AddScore grow s c)) cs empty_scores)))
   \<and> length (elems (fold (\<lambda>c s. newList (AddScore grow s c)) cs empty_scores)) \<le> MaxHighScores"
  by (rule AddScore_calls_invariant) (simp_all add: empty_scores_def)

text \<open>
  On a stored list within capacity whose slice has no spare capacity, the check at game
  over and the insert of \<open>HandleEnter\<close> agree: when the tick that stops the game moves to
  name entry, the insert retains the candidate whatever name is entered.
\<close>

lemma entry_check_agrees_with_insert:
  assumes "CurrentState g = StatePlaying" and "\<not> Level g <s 0"
    and "list_all IsStopped (Pacmans g)"
    and "spare (HighScores g) = []" and "length (elems (HighScores g)) \<le> MaxHighScores"
    and "CurrentState (Game_Update F now grow g) = StateEnteringHighScore"
  shows "retained (AddScore grow' (HighScores (Game_Update F now grow g))
           \<lparr>Name = name, Score = TotalBounces (Game_Update F now grow g)\<rparr>)"
proof -
  let ?r = "AddScore grow (HighScores g) \<lparr>Name = [], Score = TotalBounces g\<rparr>"
  note eq = Game_Update_stopped [OF assms(1) assms(2) assms(3), of F now grow]
  from assms(6) have r: "retained ?r"
    by (simp add: eq Let_def split: if_splits)
  have hs: "HighScores (Game_Update F now grow g) = HighScores g"
    by (simp add: eq Let_def seen_by_caller_no_spare [OF assms(4)])
  have tb: "TotalBounces (Game_Update F now grow g) = TotalBounces g"
    by (simp add: eq Let_def)
  from r have "shouldAdd (elems (HighScores g)) \<lparr>Name = [], Score = TotalBounces g\<rparr>"
    by (simp add: retained_iff_shouldAdd [OF assms(5)])
  moreover from assms(5) have "length (elems (HighScores g)) \<le> 12"
    by (simp add: MaxHighScores_def)
  ultimately have "shouldAdd (elems (HighScores g)) \<lparr>Name = name, Score = TotalBounces g\<rparr>"
    by (simp add: shouldAdd_iff score_of_def)
  then show ?thesis
    by (simp add: hs tb retained_iff_shouldAdd [OF assms(5)])
qed


end
